theory Spec2Isabelle
  imports Main
begin

section \<open>Values and errors of the Python program\<close>

text \<open>
  A value decoded from JSON by \<^verbatim>\<open>response.json()\<close>, and the payloads the program builds
  from dict and list literals. An object is the decoded dict, kept as an association list
  read with \<open>map_of\<close>. Numbers are kept as integers: a float behaves like an integer in
  every operation the program applies to a decoded value (subscripting and iteration raise
  TypeError, it is false exactly when it is zero).
\<close>

datatype json =
    JNull
  | JBool bool
  | JNum int
  | JStr string
  | JArr "json list"
  | JObj "(string \<times> json) list"

text \<open>
  The exceptions that the modelled code raises or receives from its libraries.
  \<open>CancelledError\<close> derives from BaseException only; every other constructor is a subclass
  of Exception.
\<close>

datatype py_error =
    KeyError
  | IndexError
  | TypeError
  | AttributeError
  | ValidationError
  | IntValueError string
  | ParseError
  | RequestFailed py_error
  | RequestError string
  | HTTPStatusError int
  | JSONDecodeError
  | ClientError string
  | ClientResponseError int
  | OSError string
  | DuplicateIds
  | OtherException string
  | CancelledError

text \<open>
  \<^item> \<open>IntValueError s\<close>: the ValueError of \<^verbatim>\<open>int(s)\<close> on a string that is no integer literal;
  \<^item> \<open>ParseError\<close>: \<^verbatim>\<open>ValueError("Failed to extract extension information from the API response.")\<close>;
  \<^item> \<open>RequestFailed e\<close>: \<^verbatim>\<open>Exception(f"An HTTP request error occurred: {exc}")\<close> raised from \<open>e\<close>;
  \<^item> \<open>RequestError\<close>: httpx.RequestError and its subclasses (httpx.TimeoutException is one);
  \<^item> \<open>HTTPStatusError\<close>: httpx's \<^verbatim>\<open>raise_for_status\<close>; \<open>ClientResponseError\<close>: aiohttp's;
  \<^item> \<open>ClientError\<close>: aiohttp's connection and payload errors;
  \<^item> \<open>DuplicateIds\<close>: Textual's error for mounting a widget under an id already in use;
  \<^item> \<open>OtherException\<close>: any other subclass of Exception, for instance one raised by a callback.
\<close>

fun is_Exception :: "py_error \<Rightarrow> bool" where
  "is_Exception CancelledError = False"
| "is_Exception _ = True"

section \<open>The search client: \<^verbatim>\<open>VsixApiHandler\<close>\<close>

subsection \<open>\<^verbatim>\<open>_build_query\<close>\<close>

definition build_query :: "int \<Rightarrow> string \<Rightarrow> int \<Rightarrow> int \<Rightarrow> json" where
  "build_query filter_type val page_number page_size =
     JObj [
       (''filters'', JArr [
          JObj [
            (''criteria'', JArr [
               JObj [(''filterType'', JNum filter_type), (''value'', JStr val)]
             ]),
            (''pageNumber'', JNum page_number),
            (''pageSize'', JNum page_size),
            (''sortBy'', JNum 0),
            (''sortOrder'', JNum 0)
          ]
        ]),
       (''assetTypes'', JArr []),
       (''flags'', JNum 514)
     ]"

text \<open>
  The first two lines of \<^verbatim>\<open>search_extensions\<close>: the filter type chosen from
  \<^verbatim>\<open>by_publisher\<close> and the payload handed to \<^verbatim>\<open>_call_api\<close>. The keyword order of
  \<^verbatim>\<open>search_extensions\<close> is (query, by_publisher, page_size, page_number); the call passes
  (filter_type, query, page_number, page_size).
\<close>

definition search_payload :: "string \<Rightarrow> bool \<Rightarrow> int \<Rightarrow> int \<Rightarrow> json" where
  "search_payload query by_publisher page_size page_number =
     (let filter_type = (if by_publisher then 4 else 10)
      in build_query filter_type query page_number page_size)"

subsection \<open>Reading and replacing a position of a JSON value\<close>

datatype path_step = Key string | Idx nat

text \<open>
  \<open>at_path v p\<close> is the value found by following the keys and indices of \<open>p\<close> from \<open>v\<close>,
  \<open>None\<close> when a step does not exist. \<open>put_path v p w\<close> replaces that position by \<open>w\<close>
  and leaves \<open>v\<close> unchanged when the position does not exist.
\<close>

fun at_path :: "json \<Rightarrow> path_step list \<Rightarrow> json option" where
  "at_path v [] = Some v"
| "at_path (JObj kvs) (Key k # p) =
     (case map_of kvs k of None \<Rightarrow> None | Some w \<Rightarrow> at_path w p)"
| "at_path (JArr xs) (Idx i # p) =
     (if i < length xs then at_path (xs ! i) p else None)"
| "at_path _ (_ # _) = None"

fun put_path :: "json \<Rightarrow> path_step list \<Rightarrow> json \<Rightarrow> json" where
  "put_path v [] w = w"
| "put_path (JObj kvs) (Key k # p) w =
     JObj (map (\<lambda>(k', u). if k' = k then (k', put_path u p w) else (k', u)) kvs)"
| "put_path (JArr xs) (Idx i # p) w =
     (if i < length xs then JArr (xs[i := put_path (xs ! i) p w]) else JArr xs)"
| "put_path v (_ # _) w = v"

definition criteria_path :: "path_step list" where
  "criteria_path = [Key ''filters'', Idx 0, Key ''criteria'']"

definition filter_type_path :: "path_step list" where
  "filter_type_path = criteria_path @ [Idx 0, Key ''filterType'']"

subsection \<open>Python operations on decoded values\<close>

text \<open>
  \<^verbatim>\<open>v[k]\<close> for a string key: a dict raises KeyError on a missing key; a list or a string
  refuses a string index and every other value is not subscriptable (TypeError).
\<close>

fun getitem :: "json \<Rightarrow> string \<Rightarrow> py_error + json" where
  "getitem (JObj kvs) k = (case map_of kvs k of None \<Rightarrow> Inl KeyError | Some v \<Rightarrow> Inr v)"
| "getitem _ k = Inl TypeError"

text \<open>
  \<^verbatim>\<open>v[0]\<close>: a list or a string raises IndexError when empty; a dict decoded from JSON has
  string keys only, so \<open>0\<close> is a missing key; every other value is not subscriptable.
\<close>

fun getitem0 :: "json \<Rightarrow> py_error + json" where
  "getitem0 (JArr []) = Inl IndexError"
| "getitem0 (JArr (x # xs)) = Inr x"
| "getitem0 (JStr []) = Inl IndexError"
| "getitem0 (JStr (c # cs)) = Inr (JStr [c])"
| "getitem0 (JObj kvs) = Inl KeyError"
| "getitem0 _ = Inl TypeError"

text \<open>\<^verbatim>\<open>v.get(k, default)\<close>: only a dict has the method (AttributeError otherwise).\<close>

fun get_default :: "json \<Rightarrow> string \<Rightarrow> json \<Rightarrow> py_error + json" where
  "get_default (JObj kvs) k d = Inr (case map_of kvs k of None \<Rightarrow> d | Some v \<Rightarrow> v)"
| "get_default _ k d = Inl AttributeError"

text \<open>
  \<^verbatim>\<open>for x in v\<close>: a list gives its elements, a dict its keys, a string its characters;
  every other value is not iterable (TypeError).
\<close>

fun iterate :: "json \<Rightarrow> py_error + json list" where
  "iterate (JArr xs) = Inr xs"
| "iterate (JObj kvs) = Inr (map JStr (remdups (map fst kvs)))"
| "iterate (JStr s) = Inr (map (\<lambda>c. JStr [c]) s)"
| "iterate _ = Inl TypeError"

text \<open>The truth value of \<^verbatim>\<open>if v\<close>.\<close>

fun truthy :: "json \<Rightarrow> bool" where
  "truthy JNull = False"
| "truthy (JBool b) = b"
| "truthy (JNum n) = (n \<noteq> 0)"
| "truthy (JStr s) = (s \<noteq> [])"
| "truthy (JArr xs) = (xs \<noteq> [])"
| "truthy (JObj kvs) = (kvs \<noteq> [])"

text \<open>Sequencing of steps that may raise: the first exception ends the computation.\<close>

definition and_then :: "'e + 'a \<Rightarrow> ('a \<Rightarrow> 'e + 'b) \<Rightarrow> 'e + 'b" where
  "and_then r f = (case r of Inl e \<Rightarrow> Inl e | Inr v \<Rightarrow> f v)"

subsection \<open>The record \<^verbatim>\<open>Extension\<close>\<close>

record extension =
  publisher :: string
  domain :: "string option"
  name :: string
  display_name :: string
  last_updated :: string
  description :: "string option"
  version :: "string option"
  download_url :: "string option"

text \<open>
  Validation of one constructor argument by the pydantic model: a field declared
  \<^verbatim>\<open>str\<close> takes a string, a field declared \<^verbatim>\<open>Optional[str]\<close> a string or \<^verbatim>\<open>None\<close>
  (JSON null decodes to \<^verbatim>\<open>None\<close>). Any other value is refused, which is pydantic 2's
  behaviour (the model's \<^verbatim>\<open>Config\<close> uses its option names); on strings and
  \<^verbatim>\<open>None\<close> every pydantic version agrees.
\<close>

fun str_field :: "json \<Rightarrow> string option" where
  "str_field (JStr s) = Some s"
| "str_field _ = None"

fun opt_str_field :: "json \<Rightarrow> string option option" where
  "opt_str_field JNull = Some None"
| "opt_str_field (JStr s) = Some (Some s)"
| "opt_str_field _ = None"

text \<open>
  The constructor call \<^verbatim>\<open>Extension(publisher=..., domain=..., name=..., display_name=...,
  last_updated=..., description=..., version=..., download_url=...)\<close>: one
  ValidationError when any argument is refused.
\<close>

definition Extension ::
  "json \<Rightarrow> json \<Rightarrow> json \<Rightarrow> json \<Rightarrow> json \<Rightarrow> json \<Rightarrow> json \<Rightarrow> json \<Rightarrow> py_error + extension" where
  "Extension p d n dn lu ds v u =
     (if str_field p \<noteq> None \<and> opt_str_field d \<noteq> None \<and> str_field n \<noteq> None \<and>
         str_field dn \<noteq> None \<and> str_field lu \<noteq> None \<and> opt_str_field ds \<noteq> None \<and>
         opt_str_field v \<noteq> None \<and> opt_str_field u \<noteq> None
      then Inr \<lparr>publisher = the (str_field p), domain = the (opt_str_field d),
                name = the (str_field n), display_name = the (str_field dn),
                last_updated = the (str_field lu), description = the (opt_str_field ds),
                version = the (opt_str_field v), download_url = the (opt_str_field u)\<rparr>
      else Inl ValidationError)"

subsection \<open>\<^verbatim>\<open>_parse_results\<close>\<close>

definition vsix_asset_type :: string where
  "vsix_asset_type = ''Microsoft.VisualStudio.Services.VSIXPackage''"

text \<open>
  \<^verbatim>\<open>next((file["source"] for file in files if file["assetType"] == "..."), None)\<close>:
  the generator is consumed up to its first element, so files after the first match are
  never looked at. \<^verbatim>\<open>None\<close> is \<open>JNull\<close>.
\<close>

fun first_vsix :: "json list \<Rightarrow> py_error + json" where
  "first_vsix [] = Inr JNull"
| "first_vsix (file # files) =
     and_then (getitem file ''assetType'') (\<lambda>t.
       if t = JStr vsix_asset_type then getitem file ''source'' else first_vsix files)"

text \<open>The body of the loop over \<^verbatim>\<open>results\<close>, up to the constructed record.\<close>

definition parse_extension :: "json \<Rightarrow> py_error + extension" where
  "parse_extension ext =
     and_then (and_then (getitem ext ''publisher'') (\<lambda>p. getitem p ''publisherName''))
       (\<lambda>publisher_name.
     and_then (and_then (getitem ext ''publisher'')
                 (\<lambda>p. get_default p ''domain'' (JStr ''marketplace.visualstudio.com'')))
       (\<lambda>domain.
     and_then (get_default ext ''lastUpdated'' (JStr ''Unknown'')) (\<lambda>last_updated.
     and_then (getitem ext ''extensionName'') (\<lambda>extension_name.
     and_then (get_default ext ''displayName'' (JStr ''N/A'')) (\<lambda>display_name.
     and_then (get_default ext ''shortDescription'' (JStr ''No description available.''))
       (\<lambda>description.
     and_then (and_then (getitem ext ''versions'') getitem0) (\<lambda>version_data.
     and_then (getitem version_data ''version'') (\<lambda>version.
     and_then (and_then (and_then (getitem version_data ''files'') iterate) first_vsix)
       (\<lambda>download_url.
     Extension publisher_name domain extension_name display_name last_updated
       description version download_url)))))))))"

text \<open>The loop: \<open>extensions\<close> is the list appended to so far.\<close>

fun parse_loop :: "json list \<Rightarrow> extension list \<Rightarrow> py_error + extension list" where
  "parse_loop [] extensions = Inr extensions"
| "parse_loop (ext # rest) extensions =
     and_then (parse_extension ext) (\<lambda>e. parse_loop rest (extensions @ [e]))"

text \<open>
  The \<^verbatim>\<open>try\<close> block of \<^verbatim>\<open>_parse_results\<close>, and the function itself:
  \<^verbatim>\<open>except (KeyError, IndexError)\<close> turns these two into the parsing error, every other
  exception leaves the function as it is.
\<close>

definition parse_results_try :: "json \<Rightarrow> py_error + extension list" where
  "parse_results_try data =
     and_then (and_then (and_then (and_then (getitem data ''results'') getitem0)
                 (\<lambda>r. getitem r ''extensions'')) iterate)
       (\<lambda>results. parse_loop results [])"

definition parse_results :: "json \<Rightarrow> py_error + extension list" where
  "parse_results data =
     (case parse_results_try data of
        Inl e \<Rightarrow> if e = KeyError \<or> e = IndexError then Inl ParseError else Inl e
      | Inr extensions \<Rightarrow> Inr extensions)"

subsection \<open>\<^verbatim>\<open>stop\<close>, \<^verbatim>\<open>_call_api\<close> and \<^verbatim>\<open>search_extensions\<close>\<close>

record vsix_api_handler =
  stop_event :: bool

definition new_handler :: vsix_api_handler where
  "new_handler = \<lparr>stop_event = False\<rparr>"

definition stop :: "vsix_api_handler \<Rightarrow> vsix_api_handler" where
  "stop h = h\<lparr>stop_event := True\<rparr>"

text \<open>
  What the outside world does during one call: the answer of \<^verbatim>\<open>client.post\<close> to a
  payload (an exception or a response with its status code and the outcome of
  \<^verbatim>\<open>response.json()\<close>), and whether another task calls \<^verbatim>\<open>stop()\<close> while the call is
  suspended in \<^verbatim>\<open>await client.post(...)\<close>, the only suspension point between clearing
  the flag and testing it.
\<close>

record http_response =
  status_code :: int
  json_body :: "py_error + json"

record search_env =
  post :: "json \<Rightarrow> py_error + http_response"
  stop_during_post :: bool

text \<open>
  The three \<^verbatim>\<open>except\<close> clauses of \<^verbatim>\<open>_call_api\<close>. httpx.TimeoutException is a subclass
  of httpx.RequestError, so the first clause takes it; \<^verbatim>\<open>None\<close> is the value returned
  after a cancellation.
\<close>

fun call_api_except :: "py_error \<Rightarrow> py_error + json option" where
  "call_api_except (RequestError m) = Inl (RequestFailed (RequestError m))"
| "call_api_except CancelledError = Inr None"
| "call_api_except e = Inl e"

text \<open>\<^verbatim>\<open>response.raise_for_status()\<close> of httpx: every status outside 200..299 raises.\<close>

definition raise_for_status :: "http_response \<Rightarrow> py_error + unit" where
  "raise_for_status r =
     (if 200 \<le> status_code r \<and> status_code r \<le> 299 then Inr ()
      else Inl (HTTPStatusError (status_code r)))"

definition call_api_try :: "vsix_api_handler \<Rightarrow> py_error + http_response \<Rightarrow> py_error + json" where
  "call_api_try h posted =
     and_then posted (\<lambda>response.
       if stop_event h then Inl CancelledError
       else and_then (raise_for_status response) (\<lambda>_. json_body response))"

definition call_api ::
  "vsix_api_handler \<Rightarrow> search_env \<Rightarrow> json \<Rightarrow> (py_error + json option) \<times> vsix_api_handler" where
  "call_api h env payload =
     (let h1 = h\<lparr>stop_event := False\<rparr>;
          posted = post env payload;
          h2 = (if stop_during_post env then stop h1 else h1)
      in (case call_api_try h2 posted of
            Inl e \<Rightarrow> call_api_except e
          | Inr data \<Rightarrow> Inr (Some data),
          h2))"

definition search_extensions ::
  "vsix_api_handler \<Rightarrow> search_env \<Rightarrow> string \<Rightarrow> bool \<Rightarrow> int \<Rightarrow> int
     \<Rightarrow> (py_error + extension list) \<times> vsix_api_handler" where
  "search_extensions h env query by_publisher page_size page_number =
     (let payload = search_payload query by_publisher page_size page_number;
          (called, h') = call_api h env payload
      in (and_then called (\<lambda>data.
            case data of
              None \<Rightarrow> Inr []
            | Some d \<Rightarrow> if truthy d then parse_results d else Inr []),
          h'))"

subsection \<open>The shape of a response, as the specification words it\<close>

text \<open>
  These predicates and readers are not part of the program: they say, on the decoded
  JSON alone, what a well-formed entry is and what the specification expects to be
  extracted from it, so that the parser can be compared with them.
\<close>

fun is_str :: "json \<Rightarrow> bool" where
  "is_str (JStr s) = True"
| "is_str _ = False"

fun is_opt_str :: "json \<Rightarrow> bool" where
  "is_opt_str (JStr s) = True"
| "is_opt_str JNull = True"
| "is_opt_str _ = False"

definition present :: "(json \<Rightarrow> bool) \<Rightarrow> (string \<times> json) list \<Rightarrow> string \<Rightarrow> bool" where
  "present P kvs k = (case map_of kvs k of None \<Rightarrow> False | Some v \<Rightarrow> P v)"

definition absent_or :: "(json \<Rightarrow> bool) \<Rightarrow> (string \<times> json) list \<Rightarrow> string \<Rightarrow> bool" where
  "absent_or P kvs k = (case map_of kvs k of None \<Rightarrow> True | Some v \<Rightarrow> P v)"

fun well_formed_file :: "json \<Rightarrow> bool" where
  "well_formed_file (JObj f) = (present is_str f ''assetType'' \<and> present is_str f ''source'')"
| "well_formed_file _ = False"

fun well_formed_version :: "json \<Rightarrow> bool" where
  "well_formed_version (JObj v) =
     (present is_str v ''version'' \<and>
      (case map_of v ''files'' of
         Some (JArr fs) \<Rightarrow> list_all well_formed_file fs
       | _ \<Rightarrow> False))"
| "well_formed_version _ = False"

fun well_formed_publisher :: "json \<Rightarrow> bool" where
  "well_formed_publisher (JObj p) =
     (present is_str p ''publisherName'' \<and> absent_or is_opt_str p ''domain'')"
| "well_formed_publisher _ = False"

text \<open>
  A well-formed entry: the required keys hold values of the expected type, the optional
  keys are absent or do, and the versions array is not empty and starts with a well-formed
  version. Nothing is asked of the later versions.
\<close>

fun well_formed_entry :: "json \<Rightarrow> bool" where
  "well_formed_entry (JObj e) =
     (present well_formed_publisher e ''publisher'' \<and>
      present is_str e ''extensionName'' \<and>
      absent_or is_str e ''lastUpdated'' \<and>
      absent_or is_str e ''displayName'' \<and>
      absent_or is_opt_str e ''shortDescription'' \<and>
      (case map_of e ''versions'' of
         Some (JArr (v # later)) \<Rightarrow> well_formed_version v
       | _ \<Rightarrow> False))"
| "well_formed_entry _ = False"

fun first_version :: "json \<Rightarrow> json" where
  "first_version (JObj e) =
     (case map_of e ''versions'' of Some (JArr (v # later)) \<Rightarrow> v | _ \<Rightarrow> JNull)"
| "first_version _ = JNull"

fun field_str :: "json \<Rightarrow> string \<Rightarrow> string option" where
  "field_str (JObj kvs) k = (case map_of kvs k of Some (JStr s) \<Rightarrow> Some s | _ \<Rightarrow> None)"
| "field_str _ k = None"

fun files_of :: "json \<Rightarrow> json list" where
  "files_of (JObj v) = (case map_of v ''files'' of Some (JArr fs) \<Rightarrow> fs | _ \<Rightarrow> [])"
| "files_of _ = []"

definition is_vsix_file :: "json \<Rightarrow> bool" where
  "is_vsix_file f = (field_str f ''assetType'' = Some vsix_asset_type)"

text \<open>
  The download URL the specification expects from the files of a version: the
  \<open>source\<close> of the first file tagged as the VSIX package, unset when there is none.
\<close>

definition expected_download_url :: "json list \<Rightarrow> string option" where
  "expected_download_url fs =
     (case find is_vsix_file fs of None \<Rightarrow> None | Some f \<Rightarrow> field_str f ''source'')"

text \<open>
  Absent structure: a key the parser reads is missing, or a value it indexes with
  \<^verbatim>\<open>[0]\<close> has no first element, at a place the parser reaches. In the files these are
  the \<open>assetType\<close> of a file up to the first VSIX file and the \<open>source\<close> of that
  file. A value has no first element when it is an empty array or an empty string, or
  an object (whose keys are strings).
\<close>

fun no_first_element :: "json \<Rightarrow> bool" where
  "no_first_element (JArr xs) = (xs = [])"
| "no_first_element (JStr s) = (s = [])"
| "no_first_element (JObj kvs) = True"
| "no_first_element _ = False"

fun first_element :: "json \<Rightarrow> json option" where
  "first_element (JArr (x # xs)) = Some x"
| "first_element (JStr (c # cs)) = Some (JStr [c])"
| "first_element _ = None"

fun missing_in_files :: "json list \<Rightarrow> bool" where
  "missing_in_files [] = False"
| "missing_in_files (JObj f # fs) =
     (case map_of f ''assetType'' of
        None \<Rightarrow> True
      | Some t \<Rightarrow> if t = JStr vsix_asset_type then map_of f ''source'' = None
                  else missing_in_files fs)"
| "missing_in_files (_ # fs) = False"

fun missing_in_file_list :: "json \<Rightarrow> bool" where
  "missing_in_file_list (JArr fs) = missing_in_files fs"
| "missing_in_file_list _ = False"

fun missing_in_version :: "json \<Rightarrow> bool" where
  "missing_in_version (JObj v) =
     (case map_of v ''version'' of
        None \<Rightarrow> True
      | Some ver \<Rightarrow> (case map_of v ''files'' of
                       None \<Rightarrow> True
                     | Some fl \<Rightarrow> missing_in_file_list fl))"
| "missing_in_version _ = False"

fun missing_in_versions :: "json option \<Rightarrow> bool" where
  "missing_in_versions None = True"
| "missing_in_versions (Some vs) =
     (no_first_element vs \<or>
      (case first_element vs of None \<Rightarrow> False | Some v \<Rightarrow> missing_in_version v))"

fun missing_in_entry :: "json \<Rightarrow> bool" where
  "missing_in_entry (JObj e) =
     (case map_of e ''publisher'' of
        None \<Rightarrow> True
      | Some (JObj p) \<Rightarrow>
          (map_of p ''publisherName'' = None \<or> map_of e ''extensionName'' = None \<or>
           missing_in_versions (map_of e ''versions''))
      | Some _ \<Rightarrow> False)"
| "missing_in_entry _ = False"

text \<open>
  An accepted entry: every value the parser reads from it is there and has the type the
  record asks for, so that the parser returns a record for it. A well-formed entry is
  accepted; an accepted entry may also have \<^verbatim>\<open>null\<close> for its version or for the source
  of its VSIX file, files after the VSIX file that are not read, or an empty object or
  string in place of the files.
\<close>

fun accepted_files :: "json list \<Rightarrow> bool" where
  "accepted_files [] = True"
| "accepted_files (JObj f # fs) =
     (case map_of f ''assetType'' of
        None \<Rightarrow> False
      | Some t \<Rightarrow> if t = JStr vsix_asset_type then present is_opt_str f ''source''
                  else accepted_files fs)"
| "accepted_files (_ # fs) = False"

fun accepted_file_list :: "json \<Rightarrow> bool" where
  "accepted_file_list (JArr fs) = accepted_files fs"
| "accepted_file_list (JObj kvs) = (kvs = [])"
| "accepted_file_list (JStr s) = (s = [])"
| "accepted_file_list _ = False"

fun accepted_version :: "json \<Rightarrow> bool" where
  "accepted_version (JObj v) =
     (present is_opt_str v ''version'' \<and> present accepted_file_list v ''files'')"
| "accepted_version _ = False"

definition accepted_versions :: "json \<Rightarrow> bool" where
  "accepted_versions vs =
     (case first_element vs of None \<Rightarrow> False | Some v \<Rightarrow> accepted_version v)"

fun accepted_entry :: "json \<Rightarrow> bool" where
  "accepted_entry (JObj e) =
     (present well_formed_publisher e ''publisher'' \<and>
      present is_str e ''extensionName'' \<and>
      absent_or is_str e ''lastUpdated'' \<and>
      absent_or is_str e ''displayName'' \<and>
      absent_or is_opt_str e ''shortDescription'' \<and>
      present accepted_versions e ''versions'')"
| "accepted_entry _ = False"

text \<open>
  The parser reaches an entry after it has returned a record for every entry before it:
  the first entry with absent structure comes after accepted entries only.
\<close>

fun missing_in_entries :: "json list \<Rightarrow> bool" where
  "missing_in_entries [] = False"
| "missing_in_entries (e # es) =
     (missing_in_entry e \<or> (accepted_entry e \<and> missing_in_entries es))"

fun missing_in_extensions :: "json \<Rightarrow> bool" where
  "missing_in_extensions (JObj r) =
     (case map_of r ''extensions'' of
        None \<Rightarrow> True
      | Some (JArr es) \<Rightarrow> missing_in_entries es
      | Some _ \<Rightarrow> False)"
| "missing_in_extensions _ = False"

fun missing_in_results :: "json option \<Rightarrow> bool" where
  "missing_in_results None = True"
| "missing_in_results (Some rs) =
     (no_first_element rs \<or>
      (case first_element rs of None \<Rightarrow> False | Some r \<Rightarrow> missing_in_extensions r))"

fun structure_absent :: "json \<Rightarrow> bool" where
  "structure_absent (JObj obj) = missing_in_results (map_of obj ''results'')"
| "structure_absent _ = False"

subsection \<open>Sample responses\<close>

text \<open>
  One extension with two version entries; the files of the first version are an asset of
  another type with source \<open>A\<close> and the VSIX package with source \<open>B\<close>.
\<close>

definition sample_entry :: json where
  "sample_entry =
     JObj [
       (''publisher'', JObj [(''publisherName'', JStr ''ms-python'')]),
       (''extensionName'', JStr ''python''),
       (''displayName'', JStr ''Python''),
       (''versions'', JArr [
          JObj [(''version'', JStr ''2.0''),
                (''files'', JArr [
                   JObj [(''assetType'', JStr ''Other''), (''source'', JStr ''A'')],
                   JObj [(''assetType'', JStr vsix_asset_type), (''source'', JStr ''B'')]])],
          JObj [(''version'', JStr ''1.0''),
                (''files'', JArr [
                   JObj [(''assetType'', JStr vsix_asset_type), (''source'', JStr ''C'')]])]])
     ]"

text \<open>An entry without \<open>extensionName\<close>.\<close>

definition nameless_entry :: json where
  "nameless_entry =
     JObj [
       (''publisher'', JObj [(''publisherName'', JStr ''ms-python'')]),
       (''versions'', JArr [JObj [(''version'', JStr ''2.0''), (''files'', JArr [])]])
     ]"

text \<open>An entry whose version is \<^verbatim>\<open>null\<close>: accepted, though not well-formed.\<close>

definition null_version_entry :: json where
  "null_version_entry =
     JObj [
       (''publisher'', JObj [(''publisherName'', JStr ''ms-python'')]),
       (''extensionName'', JStr ''python''),
       (''versions'', JArr [JObj [(''version'', JNull), (''files'', JArr [])]])
     ]"

definition response_of :: "json list \<Rightarrow> json" where
  "response_of entries = JObj [(''results'', JArr [JObj [(''extensions'', JArr entries)]])]"

text \<open>A server that answers every payload with status 200 and the given body.\<close>

definition answering :: "json \<Rightarrow> bool \<Rightarrow> search_env" where
  "answering body stopped =
     \<lparr>post = (\<lambda>payload. Inr \<lparr>status_code = 200, json_body = Inr body\<rparr>),
      stop_during_post = stopped\<rparr>"

section \<open>The download coordinator: \<^verbatim>\<open>DownloadManager\<close>\<close>

subsection \<open>\<^verbatim>\<open>int(...)\<close> of a header value\<close>

type_synonym bytes = string

text \<open>
  \<^verbatim>\<open>int(s)\<close> for a string of characters below 256: surrounding whitespace is
  skipped (tab, line feed, vertical tab, form feed, carriage return, the four separators
  28 to 31, space, next line 133 and the no-break space 160: the characters below 256 for
  which \<^verbatim>\<open>str.isspace\<close> holds), one sign is allowed, and the rest must be decimal
  digits, with single underscores allowed between digits. Anything else raises
  ValueError. Two things are left out: the digits and spaces beyond 255 that \<^verbatim>\<open>int\<close>
  also accepts, and the interpreter's limit on the length of an integer string (4300
  digits by default), beyond which it raises ValueError as well. The values that reach
  \<^verbatim>\<open>int\<close> through the client are strings of ASCII digits (see \<open>session_get\<close> below),
  and nothing is stated here about any other string.
\<close>

definition is_space :: "char \<Rightarrow> bool" where
  "is_space c = (let n = (of_char c :: nat) in
                   (9 \<le> n \<and> n \<le> 13) \<or> (28 \<le> n \<and> n \<le> 32) \<or> n = 133 \<or> n = 160)"

definition digit_val :: "char \<Rightarrow> int option" where
  "digit_val c = (let n = (of_char c :: nat) in
                    if 48 \<le> n \<and> n \<le> 57 then Some (int n - 48) else None)"

definition strip :: "string \<Rightarrow> string" where
  "strip s = rev (dropWhile is_space (rev (dropWhile is_space s)))"

fun int_digits :: "string \<Rightarrow> int \<Rightarrow> int option" where
  "int_digits [] acc = None"
| "int_digits [c] acc = (case digit_val c of None \<Rightarrow> None | Some d \<Rightarrow> Some (10 * acc + d))"
| "int_digits (c # c' # cs) acc =
     (case digit_val c of
        None \<Rightarrow> None
      | Some d \<Rightarrow> if c' = CHR ''_'' then int_digits cs (10 * acc + d)
                  else int_digits (c' # cs) (10 * acc + d))"

definition int_of_str :: "string \<Rightarrow> py_error + int" where
  "int_of_str s =
     (let t = strip s;
          negative = (t \<noteq> [] \<and> hd t = CHR ''-'');
          digits = (if t \<noteq> [] \<and> (hd t = CHR ''-'' \<or> hd t = CHR ''+'') then tl t else t)
      in case int_digits digits 0 of
           None \<Rightarrow> Inl (IntValueError s)
         | Some n \<Rightarrow> Inr (if negative then - n else n))"

subsection \<open>The world of one download\<close>

text \<open>
  The response of \<^verbatim>\<open>session.get(url)\<close>: its status, the headers as the lookup
  \<^verbatim>\<open>response.headers.get\<close> performs, and what the iteration
  \<^verbatim>\<open>response.content.iter_chunked(1024)\<close> yields, step by step: a chunk, or an exception
  raised by the read. The end of the list is the end of the stream.
\<close>

datatype stream_event = Chunk bytes | StreamError py_error

record client_response =
  status :: int
  headers :: "string \<rightharpoonup> string"
  content :: "stream_event list"

text \<open>
  What the outside world does during one run of \<^verbatim>\<open>download_file\<close>: the outcome of
  \<^verbatim>\<open>session.get\<close>, of \<^verbatim>\<open>os.makedirs\<close>, of \<^verbatim>\<open>open(output_path, "wb")\<close>, and of the
  \<^verbatim>\<open>file.write\<close> at a given position of the file.
\<close>

record download_env =
  get_result :: "py_error + client_response"
  makedirs_error :: "py_error option"
  open_error :: "py_error option"
  write_error :: "nat \<Rightarrow> py_error option"

text \<open>
  aiohttp reads the head of the response before \<^verbatim>\<open>session.get\<close> hands out a response
  object, and it refuses a head whose \<open>Content-Length\<close> is not a string of decimal
  digits: the call raises an error of the client instead. \<open>session_get\<close> is what the
  call makes of the answer of the server, and \<open>decimal\<close> is the number that a string of
  digits denotes.
\<close>

definition digit_string :: "string \<Rightarrow> bool" where
  "digit_string s = (s \<noteq> [] \<and> list_all (\<lambda>c. digit_val c \<noteq> None) s)"

definition decimal :: "string \<Rightarrow> int" where
  "decimal s = foldl (\<lambda>n c. 10 * n + the (digit_val c)) 0 s"

definition session_get :: "py_error + client_response \<Rightarrow> py_error + client_response" where
  "session_get answer =
     (case answer of
        Inl e \<Rightarrow> Inl e
      | Inr response \<Rightarrow>
          (case headers response ''Content-Length'' of
             None \<Rightarrow> Inr response
           | Some s \<Rightarrow> if digit_string s then Inr response
                       else Inl (ClientError ''invalid Content-Length'')))"

text \<open>
  A callback \<^verbatim>\<open>Callable[[int, int], None]\<close> returns (\<open>None\<close>) or raises. The parameter
  is optional: the code calls it only \<^verbatim>\<open>if progress_callback\<close>.
\<close>

type_synonym callback = "int \<Rightarrow> int \<Rightarrow> py_error option"

datatype call = Progress int int | Completion int int

text \<open>
  What a run has done so far: whether it has opened the destination file (which creates
  or truncates it), the bytes it has written to it, the local variable
  \<^verbatim>\<open>downloaded\<close>, and the callback invocations in order. An invocation is recorded when it is made, also when it raises.
\<close>

record run_state =
  opened :: bool
  written :: bytes
  downloaded :: int
  calls :: "call list"

definition initial_run :: run_state where
  "initial_run = \<lparr>opened = False, written = [], downloaded = 0, calls = []\<rparr>"

subsection \<open>\<^verbatim>\<open>download_file\<close>\<close>

text \<open>\<^verbatim>\<open>int(response.headers.get("Content-Length", 0))\<close>\<close>

definition content_length :: "client_response \<Rightarrow> py_error + int" where
  "content_length response =
     (case headers response ''Content-Length'' of None \<Rightarrow> Inr 0 | Some s \<Rightarrow> int_of_str s)"

text \<open>
  The two effects of one turn of the loop: \<^verbatim>\<open>file.write(chunk)\<close> with
  \<^verbatim>\<open>downloaded += len(chunk)\<close>, and the invocation
  \<^verbatim>\<open>progress_callback(downloaded, total_size)\<close>.
\<close>

definition wrote :: "run_state \<Rightarrow> bytes \<Rightarrow> run_state" where
  "wrote st chunk = st\<lparr>written := written st @ chunk,
                        downloaded := downloaded st + int (length chunk)\<rparr>"

definition reported :: "run_state \<Rightarrow> int \<Rightarrow> run_state" where
  "reported st total_size = st\<lparr>calls := calls st @ [Progress (downloaded st) total_size]\<rparr>"

text \<open>
  The loop \<^verbatim>\<open>async for chunk in ...\<close>: write the chunk, add its length, report
  progress. The result is the exception that ended the loop, if any, and the state
  reached.
\<close>

fun stream_loop ::
  "download_env \<Rightarrow> callback option \<Rightarrow> int \<Rightarrow> stream_event list \<Rightarrow> run_state
     \<Rightarrow> py_error option \<times> run_state" where
  "stream_loop env progress_callback total_size [] st = (None, st)"
| "stream_loop env progress_callback total_size (StreamError e # rest) st = (Some e, st)"
| "stream_loop env progress_callback total_size (Chunk chunk # rest) st =
     (case write_error env (length (written st)) of
        Some e \<Rightarrow> (Some e, st)
      | None \<Rightarrow>
          (case progress_callback of
             None \<Rightarrow> stream_loop env progress_callback total_size rest (wrote st chunk)
           | Some f \<Rightarrow>
               (case f (downloaded (wrote st chunk)) total_size of
                  Some e \<Rightarrow> (Some e, reported (wrote st chunk) total_size)
                | None \<Rightarrow>
                    stream_loop env progress_callback total_size rest
                      (reported (wrote st chunk) total_size))))"

text \<open>
  From \<^verbatim>\<open>downloaded = 0\<close> to the completion callback: create the directories, open
  the file, run the loop, and call
  \<^verbatim>\<open>completion_callback\<close> if there is one.
\<close>

definition download_stream ::
  "download_env \<Rightarrow> client_response \<Rightarrow> int \<Rightarrow> callback option \<Rightarrow> callback option
     \<Rightarrow> py_error option \<times> run_state" where
  "download_stream env response total_size progress_callback completion_callback =
     (case makedirs_error env of
        Some e \<Rightarrow> (Some e, initial_run)
      | None \<Rightarrow>
     (case open_error env of
        Some e \<Rightarrow> (Some e, initial_run)
      | None \<Rightarrow>
     (case stream_loop env progress_callback total_size (content response)
             (initial_run\<lparr>opened := True\<rparr>) of
        (Some e, st) \<Rightarrow> (Some e, st)
      | (None, st) \<Rightarrow>
     (case completion_callback of
        None \<Rightarrow> (None, st)
      | Some f \<Rightarrow>
          (f (downloaded st) total_size,
           st\<lparr>calls := calls st @ [Completion (downloaded st) total_size]\<rparr>)))))"

text \<open>
  The body of the \<^verbatim>\<open>try\<close>. \<^verbatim>\<open>response.raise_for_status()\<close> of aiohttp raises for a
  status of 400 and above.
\<close>

definition download_body ::
  "download_env \<Rightarrow> callback option \<Rightarrow> callback option \<Rightarrow> py_error option \<times> run_state" where
  "download_body env progress_callback completion_callback =
     (case get_result env of
        Inl e \<Rightarrow> (Some e, initial_run)
      | Inr response \<Rightarrow>
          if 400 \<le> status response
          then (Some (ClientResponseError (status response)), initial_run)
          else (case content_length response of
                  Inl e \<Rightarrow> (Some e, initial_run)
                | Inr total_size \<Rightarrow>
                    download_stream env response total_size
                      progress_callback completion_callback))"

text \<open>
  The coordinator and a finished run of the coroutine. \<^verbatim>\<open>except Exception\<close> takes
  every exception but those that derive from BaseException only, prints one line
  (kept as the URL and the exception) and lets the coroutine return; such an exception
  leaves the coroutine otherwise. \<^verbatim>\<open>finally\<close> discards the task in both cases.
\<close>

record download_manager =
  download_tasks :: "nat set"

datatype task_end = Returned | Propagated py_error

record finished_run =
  ending :: task_end
  printed :: "(string \<times> py_error) list"
  final :: run_state

definition download_file ::
  "download_manager \<Rightarrow> nat \<Rightarrow> string \<Rightarrow> download_env \<Rightarrow> callback option \<Rightarrow> callback option
     \<Rightarrow> finished_run \<times> download_manager" where
  "download_file self current_task url env progress_callback completion_callback =
     (let (raised, st) = download_body env progress_callback completion_callback;
          m = self\<lparr>download_tasks := download_tasks self - {current_task}\<rparr>
      in case raised of
           None \<Rightarrow> (\<lparr>ending = Returned, printed = [], final = st\<rparr>, m)
         | Some e \<Rightarrow>
             if is_Exception e
             then (\<lparr>ending = Returned, printed = [(url, e)], final = st\<rparr>, m)
             else (\<lparr>ending = Propagated e, printed = [], final = st\<rparr>, m))"

subsection \<open>The singleton, \<^verbatim>\<open>start_download\<close> and \<^verbatim>\<open>active_downloads\<close>\<close>

text \<open>
  \<^verbatim>\<open>DownloadManager()\<close>: \<^verbatim>\<open>__new__\<close> creates the instance once, \<^verbatim>\<open>__init__\<close> gives it
  the empty set once; later calls return the instance as it is. The argument is the class
  attribute \<^verbatim>\<open>_instance\<close>.
\<close>

definition DownloadManager :: "download_manager option \<Rightarrow> download_manager" where
  "DownloadManager inst =
     (case inst of None \<Rightarrow> \<lparr>download_tasks = {}\<rparr> | Some self \<Rightarrow> self)"

definition active_downloads :: "download_manager \<Rightarrow> nat" where
  "active_downloads self = card (download_tasks self)"

text \<open>
  The event loop as far as downloads go: the singleton, the number of tasks created so
  far (the next task handle), and the coroutines of the tasks that have not finished,
  each with the arguments it was created with.
\<close>

record coroutine =
  url :: string
  progress_callback :: "callback option"
  completion_callback :: "callback option"

record event_loop =
  singleton :: "download_manager option"
  created :: nat
  pending :: "nat \<rightharpoonup> coroutine"

definition initial_loop :: event_loop where
  "initial_loop = \<lparr>singleton = None, created = 0, pending = Map.empty\<rparr>"

text \<open>
  \<^verbatim>\<open>DownloadManager().start_download(...)\<close>: \<^verbatim>\<open>asyncio.create_task\<close> makes a new task
  for the coroutine, and the task is added to the set. Nothing is awaited in between, so
  the task cannot run before it is registered.
\<close>

definition start_download :: "event_loop \<Rightarrow> coroutine \<Rightarrow> event_loop" where
  "start_download l co =
     (let self = DownloadManager (singleton l);
          task = created l
      in l\<lparr>singleton := Some (self\<lparr>download_tasks := insert task (download_tasks self)\<rparr>),
            created := Suc task,
            pending := (pending l)(task \<mapsto> co)\<rparr>)"

text \<open>
  A pending task runs its coroutine, from its first step to the end, in the given world.
  The coroutine touches the set only in its \<^verbatim>\<open>finally\<close> clause, so for the set it does
  not matter how the bodies of several tasks interleave at their suspension points, and
  a task is taken as one step. A task that is not pending does not run.
\<close>

definition finish_task :: "event_loop \<Rightarrow> nat \<Rightarrow> download_env \<Rightarrow> event_loop" where
  "finish_task l task env =
     (case pending l task of
        None \<Rightarrow> l
      | Some co \<Rightarrow>
          (let (r, m) = download_file (DownloadManager (singleton l)) task (url co) env
                          (progress_callback co) (completion_callback co)
           in l\<lparr>singleton := Some m, pending := (pending l)(task := None)\<rparr>))"

text \<open>
  A pending task may also be cancelled before the event loop has run its first step.
  asyncio then throws CancelledError into the coroutine at its very start: no statement
  of \<^verbatim>\<open>download_file\<close> runs, neither the \<^verbatim>\<open>try\<close> nor its \<^verbatim>\<open>finally\<close>, and the task
  is done. (A task cancelled later, while it is suspended in its body, gets the
  CancelledError at that point of the body: that is \<open>finish_task\<close> in a world where the
  awaited call raises it.)
\<close>

definition cancel_unstarted :: "event_loop \<Rightarrow> nat \<Rightarrow> event_loop" where
  "cancel_unstarted l task = l\<lparr>pending := (pending l)(task := None)\<rparr>"

datatype loop_event = Start coroutine | Finish nat download_env | CancelUnstarted nat

fun loop_step :: "event_loop \<Rightarrow> loop_event \<Rightarrow> event_loop" where
  "loop_step l (Start co) = start_download l co"
| "loop_step l (Finish task env) = finish_task l task env"
| "loop_step l (CancelUnstarted task) = cancel_unstarted l task"

fun runs_its_body :: "loop_event \<Rightarrow> bool" where
  "runs_its_body (CancelUnstarted task) = False"
| "runs_its_body _ = True"

definition run_loop :: "loop_event list \<Rightarrow> event_loop" where
  "run_loop evs = foldl loop_step initial_loop evs"

subsection \<open>Reading a trace of callback invocations\<close>

fun progress_values :: "call list \<Rightarrow> int list" where
  "progress_values [] = []"
| "progress_values (Progress d t # cs) = d # progress_values cs"
| "progress_values (Completion d t # cs) = progress_values cs"

fun completions :: "call list \<Rightarrow> (int \<times> int) list" where
  "completions [] = []"
| "completions (Progress d t # cs) = completions cs"
| "completions (Completion d t # cs) = (d, t) # completions cs"

fun chunks_of :: "stream_event list \<Rightarrow> bytes list" where
  "chunks_of [] = []"
| "chunks_of (Chunk c # evs) = c # chunks_of evs"
| "chunks_of (StreamError e # evs) = chunks_of evs"

text \<open>
  The values of \<^verbatim>\<open>downloaded\<close> after each chunk of a list, starting from \<open>d\<close>, and the
  progress invocations they give when there is a progress callback.
\<close>

fun running_totals :: "int \<Rightarrow> bytes list \<Rightarrow> int list" where
  "running_totals d [] = []"
| "running_totals d (c # cs) = (d + int (length c)) # running_totals (d + int (length c)) cs"

definition reports :: "callback option \<Rightarrow> int \<Rightarrow> int list \<Rightarrow> call list" where
  "reports pcb total_size ds =
     (case pcb of None \<Rightarrow> [] | Some f \<Rightarrow> map (\<lambda>d. Progress d total_size) ds)"




text \<open>An invocation that returned: its callback exists and does not raise on it.\<close>

fun returned :: "callback option \<Rightarrow> callback option \<Rightarrow> call \<Rightarrow> bool" where
  "returned pcb ccb (Progress d t) = (case pcb of None \<Rightarrow> False | Some f \<Rightarrow> f d t = None)"
| "returned pcb ccb (Completion d t) = (case ccb of None \<Rightarrow> False | Some f \<Rightarrow> f d t = None)"

subsection \<open>Sample downloads\<close>

text \<open>
  A response of five bytes in two chunks with an accurate \<open>Content-Length\<close>, the same
  response with a \<open>Content-Length\<close> that is no integer, and a refused connection.
\<close>

definition sample_response :: client_response where
  "sample_response =
     \<lparr>status = 200, headers = [''Content-Length'' \<mapsto> ''5''],
      content = [Chunk ''abc'', Chunk ''de'']\<rparr>"

definition serving :: "client_response \<Rightarrow> download_env" where
  "serving response =
     \<lparr>get_result = Inr response, makedirs_error = None, open_error = None,
      write_error = (\<lambda>pos. None)\<rparr>"

text \<open>The world in which the server gives the answer and nothing else fails.\<close>

definition fetching :: "py_error + client_response \<Rightarrow> download_env" where
  "fetching answer =
     \<lparr>get_result = session_get answer, makedirs_error = None, open_error = None,
      write_error = (\<lambda>pos. None)\<rparr>"

definition garbled_response :: client_response where
  "garbled_response = sample_response\<lparr>headers := [''Content-Length'' \<mapsto> ''abc'']\<rparr>"

definition refusing :: download_env where
  "refusing =
     \<lparr>get_result = Inl (ClientError ''connection refused''), makedirs_error = None,
      open_error = None, write_error = (\<lambda>pos. None)\<rparr>"

definition quiet :: callback where
  "quiet d t = None"

definition raising :: callback where
  "raising d t = Some (OtherException ''callback failed'')"

text \<open>The set the coordinator of a loop tracks.\<close>

definition tracked :: "event_loop \<Rightarrow> nat set" where
  "tracked l = download_tasks (DownloadManager (singleton l))"

section \<open>The search screen\<close>

text \<open>
  The part of \<^verbatim>\<open>SearchScreen\<close> that correlates a displayed result with a record: the
  dict \<^verbatim>\<open>extensions\<close> and the children of the container \<^verbatim>\<open>#extension_container\<close>,
  each an \<^verbatim>\<open>ExtensionWidget\<close> with its id and the extension it shows.
\<close>

record search_screen =
  extensions :: "string \<rightharpoonup> extension"
  container :: "(string \<times> extension) list"

text \<open>
  The first screen of a process. \<^verbatim>\<open>extensions\<close> is an attribute of the class and is
  never rebound, so a later screen starts with the dict its predecessors left.
\<close>

definition new_screen :: search_screen where
  "new_screen = \<lparr>extensions = Map.empty, container = []\<rparr>"

text \<open>
  \<^verbatim>\<open>vertical.mount(ExtensionWidget(extension, id=...))\<close>, for ids that Textual accepts as
  identifiers: the widget is mounted unless a child has the id already. The list holds
  the mounted widgets, the ones that are displayed and have a button to press; the node
  that Textual leaves behind when it refuses a widget is never attached and is not
  listed.
\<close>

definition mount ::
  "(string \<times> extension) list \<Rightarrow> string \<Rightarrow> extension \<Rightarrow> py_error + (string \<times> extension) list" where
  "mount children widget_id x =
     (if widget_id \<in> set (map fst children) then Inl DuplicateIds
      else Inr (children @ [(widget_id, x)]))"

text \<open>
  The loop of \<^verbatim>\<open>populate_extensions\<close> over the search results: the dict entry is
  assigned first, then the widget is mounted, and \<^verbatim>\<open>except DuplicateIds: pass\<close> goes on
  with the next result.
\<close>

fun populate_extensions :: "extension list \<Rightarrow> search_screen \<Rightarrow> search_screen" where
  "populate_extensions [] s = s"
| "populate_extensions (x # rest) s =
     (let s1 = s\<lparr>extensions := (extensions s)(name x \<mapsto> x)\<rparr>
      in populate_extensions rest
           (case mount (container s1) (name x) x of
              Inl e \<Rightarrow> s1
            | Inr children \<Rightarrow> s1\<lparr>container := children\<rparr>))"

text \<open>\<^verbatim>\<open>sub in s\<close> and \<^verbatim>\<open>s.replace(old, '')\<close> for strings.\<close>

fun contains :: "string \<Rightarrow> string \<Rightarrow> bool" where
  "contains sub [] = (sub = [])"
| "contains sub (c # cs) = (take (length sub) (c # cs) = sub \<or> contains sub cs)"

text \<open>
  The occurrences of \<open>old\<close> are removed from left to right without overlap; \<open>skip\<close>
  counts the characters of the current occurrence that are still to be dropped.
\<close>

fun remove_from :: "string \<Rightarrow> nat \<Rightarrow> string \<Rightarrow> string" where
  "remove_from old skip [] = []"
| "remove_from old skip (c # cs) =
     (if 0 < skip then remove_from old (skip - 1) cs
      else if old \<noteq> [] \<and> take (length old) (c # cs) = old
           then remove_from old (length old - 1) cs
           else c # remove_from old 0 cs)"

definition replace_with_empty :: "string \<Rightarrow> string \<Rightarrow> string" where
  "replace_with_empty old s = remove_from old 0 s"

text \<open>The id of the download button that \<^verbatim>\<open>ExtensionWidget.compose\<close> yields.\<close>

definition download_button_id :: "extension \<Rightarrow> string" where
  "download_button_id x = name x @ ''_download_button''"

text \<open>
  \<^verbatim>\<open>on_button_pressed\<close>: \<open>None\<close> when the button is not a download button, otherwise
  the value the screen is dismissed with, or the KeyError of the dict lookup.
\<close>

definition on_button_pressed :: "search_screen \<Rightarrow> string \<Rightarrow> (py_error + extension) option" where
  "on_button_pressed s button_id =
     (if contains ''_download_button'' button_id
      then (let extension_name = replace_with_empty ''_download_button'' button_id
            in Some (case extensions s extension_name of
                       None \<Rightarrow> Inl KeyError
                     | Some x \<Rightarrow> Inr x))
      else None)"

text \<open>Two results with the same extension name, from two publishers.\<close>

definition first_python :: extension where
  "first_python =
     \<lparr>publisher = ''ms-python'', domain = None, name = ''python'', display_name = ''Python'',
      last_updated = ''Unknown'', description = None, version = Some ''2.0'',
      download_url = Some ''https://example.org/ms-python.vsix''\<rparr>"

definition second_python :: extension where
  "second_python =
     \<lparr>publisher = ''someone'', domain = None, name = ''python'', display_name = ''Python tools'',
      last_updated = ''Unknown'', description = None, version = Some ''0.1'',
      download_url = Some ''https://example.org/someone.vsix''\<rparr>"

section \<open>Properties of the query payload\<close>

lemma build_query_criteria:
  "at_path (build_query ft q pn ps) criteria_path
     = Some (JArr [JObj [(''filterType'', JNum ft), (''value'', JStr q)]])"
  by (simp add: build_query_def criteria_path_def)

lemma build_query_filters_single:
  "\<exists>f. at_path (build_query ft q pn ps) [Key ''filters''] = Some (JArr [f])"
  by (simp add: build_query_def)

lemma build_query_fixed:
  "at_path (build_query ft q pn ps) [Key ''filters'', Idx 0, Key ''sortBy''] = Some (JNum 0)"
  "at_path (build_query ft q pn ps) [Key ''filters'', Idx 0, Key ''sortOrder''] = Some (JNum 0)"
  "at_path (build_query ft q pn ps) [Key ''assetTypes''] = Some (JArr [])"
  "at_path (build_query ft q pn ps) [Key ''flags''] = Some (JNum 514)"
  by (simp_all add: build_query_def)

lemma build_query_paging:
  "at_path (build_query ft q pn ps) [Key ''filters'', Idx 0, Key ''pageNumber''] = Some (JNum pn)"
  "at_path (build_query ft q pn ps) [Key ''filters'', Idx 0, Key ''pageSize''] = Some (JNum ps)"
  by (simp_all add: build_query_def)

lemma build_query_put_filter_type:
  "put_path (build_query ft q pn ps) filter_type_path (JNum ft') = build_query ft' q pn ps"
  by (simp add: build_query_def filter_type_path_def criteria_path_def)

text \<open>
  Claim C7. For every query string, page size and page number, the payload that
  \<^verbatim>\<open>search_extensions\<close> builds has exactly one filter, holding exactly one criterion whose
  \<open>filterType\<close> is 4 when searching by publisher and 10 when searching by extension name
  and whose value is the query; \<open>sortBy\<close> and \<open>sortOrder\<close> are 0, \<open>assetTypes\<close> is the
  empty list and \<open>flags\<close> is 514. For the same query the publisher payload and the name
  payload differ at \<open>filters[0].criteria[0].filterType\<close>, and only there: replacing that
  one position of either payload by the other code gives the other payload.
\<close>

theorem C7_query_payload:
  "at_path (search_payload q by_publisher ps pn) criteria_path
     = Some (JArr [JObj [(''filterType'', JNum (if by_publisher then 4 else 10)),
                         (''value'', JStr q)]])
   \<and> (\<exists>f. at_path (search_payload q by_publisher ps pn) [Key ''filters''] = Some (JArr [f]))
   \<and> at_path (search_payload q by_publisher ps pn) [Key ''filters'', Idx 0, Key ''sortBy'']
       = Some (JNum 0)
   \<and> at_path (search_payload q by_publisher ps pn) [Key ''filters'', Idx 0, Key ''sortOrder'']
       = Some (JNum 0)
   \<and> at_path (search_payload q by_publisher ps pn) [Key ''filters'', Idx 0, Key ''pageNumber'']
       = Some (JNum pn)
   \<and> at_path (search_payload q by_publisher ps pn) [Key ''filters'', Idx 0, Key ''pageSize'']
       = Some (JNum ps)
   \<and> at_path (search_payload q by_publisher ps pn) [Key ''assetTypes''] = Some (JArr [])
   \<and> at_path (search_payload q by_publisher ps pn) [Key ''flags''] = Some (JNum 514)
   \<and> at_path (search_payload q True ps pn) filter_type_path = Some (JNum 4)
   \<and> at_path (search_payload q False ps pn) filter_type_path = Some (JNum 10)
   \<and> put_path (search_payload q True ps pn) filter_type_path (JNum 10)
       = search_payload q False ps pn
   \<and> put_path (search_payload q False ps pn) filter_type_path (JNum 4)
       = search_payload q True ps pn"
proof -
  have ft: "\<And>ft. at_path (build_query ft q pn ps) filter_type_path = Some (JNum ft)"
    by (simp add: build_query_def filter_type_path_def criteria_path_def)
  show ?thesis
    unfolding search_payload_def Let_def
    by (simp only: build_query_criteria build_query_filters_single build_query_fixed
          build_query_paging build_query_put_filter_type ft if_True if_False simp_thms)
qed

section \<open>Properties of the parser\<close>

lemma first_vsix_wf:
  "list_all well_formed_file fs \<Longrightarrow>
   first_vsix fs = Inr (case expected_download_url fs of None \<Rightarrow> JNull | Some u \<Rightarrow> JStr u)"
proof (induction fs)
  case Nil
  then show ?case by (simp add: expected_download_url_def)
next
  case (Cons f fs)
  from Cons.prems obtain kvs where f: "f = JObj kvs"
    by (cases f) auto
  from Cons.prems f obtain t s where
    t: "map_of kvs ''assetType'' = Some (JStr t)" and s: "map_of kvs ''source'' = Some (JStr s)"
    by (auto simp: present_def split: option.splits json.splits elim!: is_str.elims)
  show ?case
  proof (cases "t = vsix_asset_type")
    case True
    then show ?thesis using f t s
      by (simp add: and_then_def expected_download_url_def is_vsix_file_def)
  next
    case False
    then show ?thesis using f t s Cons
      by (simp add: and_then_def expected_download_url_def is_vsix_file_def)
  qed
qed

lemma and_then_simps:
  "and_then (Inr v) f = f v"
  "and_then (Inl e) f = Inl e"
  by (simp_all add: and_then_def)

lemma present_is_str:
  "present is_str kvs k \<Longrightarrow> \<exists>s. map_of kvs k = Some (JStr s)"
  by (auto simp: present_def split: option.splits elim: is_str.elims)

lemma get_default_str:
  "absent_or is_str kvs k \<Longrightarrow> \<exists>s. get_default (JObj kvs) k (JStr d) = Inr (JStr s)"
  by (auto simp: absent_or_def split: option.splits elim: is_str.elims)

lemma get_default_opt_str:
  "absent_or is_opt_str kvs k \<Longrightarrow> \<exists>j. get_default (JObj kvs) k (JStr d) = Inr j \<and> is_opt_str j"
  by (auto simp: absent_or_def split: option.splits)

lemma opt_str_field_ok: "is_opt_str j \<Longrightarrow> opt_str_field j \<noteq> None"
  by (cases j) simp_all

lemma Extension_ok:
  assumes "is_opt_str d" "is_opt_str ds" "is_opt_str u"
  shows "Extension (JStr p) d (JStr n) (JStr dn) (JStr lu) ds (JStr v) u =
     Inr \<lparr>publisher = p, domain = the (opt_str_field d), name = n, display_name = dn,
          last_updated = lu, description = the (opt_str_field ds), version = Some v,
          download_url = the (opt_str_field u)\<rparr>"
  using assms by (simp add: Extension_def opt_str_field_ok)

lemma parse_extension_wf:
  assumes "well_formed_entry e"
  shows "\<exists>x. parse_extension e = Inr x
           \<and> version x = field_str (first_version e) ''version''
           \<and> download_url x = expected_download_url (files_of (first_version e))
           \<and> name x = the (field_str e ''extensionName'')"
proof -
  from assms obtain kvs where e: "e = JObj kvs" by (cases e) simp_all
  from assms e have wf:
    "present well_formed_publisher kvs ''publisher''"
    "present is_str kvs ''extensionName''"
    "absent_or is_str kvs ''lastUpdated''"
    "absent_or is_str kvs ''displayName''"
    "absent_or is_opt_str kvs ''shortDescription''"
    by simp_all
  from wf(1) obtain pv where pv: "map_of kvs ''publisher'' = Some pv" "well_formed_publisher pv"
    by (auto simp: present_def split: option.splits)
  then obtain p where p: "pv = JObj p" by (cases pv) simp_all
  from pv(2) p obtain pn where pn: "map_of p ''publisherName'' = Some (JStr pn)"
    using present_is_str by fastforce
  from pv(2) p obtain dm where dm:
    "get_default (JObj p) ''domain'' (JStr ''marketplace.visualstudio.com'') = Inr dm" "is_opt_str dm"
    using get_default_opt_str by fastforce
  from wf(2) obtain n where n: "map_of kvs ''extensionName'' = Some (JStr n)"
    using present_is_str by blast
  from wf(3) obtain lu where lu: "get_default (JObj kvs) ''lastUpdated'' (JStr ''Unknown'') = Inr (JStr lu)"
    using get_default_str by blast
  from wf(4) obtain dn where dn: "get_default (JObj kvs) ''displayName'' (JStr ''N/A'') = Inr (JStr dn)"
    using get_default_str by blast
  from wf(5) obtain ds where ds:
    "get_default (JObj kvs) ''shortDescription'' (JStr ''No description available.'') = Inr ds" "is_opt_str ds"
    using get_default_opt_str by blast
  from assms e obtain v later where vs: "map_of kvs ''versions'' = Some (JArr (v # later))" "well_formed_version v"
    by (auto split: option.splits json.splits list.splits)
  then obtain vk where v: "v = JObj vk" by (cases v) simp_all
  from vs(2) v obtain ver where ver: "map_of vk ''version'' = Some (JStr ver)"
    using present_is_str by fastforce
  from vs(2) v obtain fs where fs: "map_of vk ''files'' = Some (JArr fs)" "list_all well_formed_file fs"
    by (auto split: option.splits json.splits)
  define u where "u = (case expected_download_url fs of None \<Rightarrow> JNull | Some a \<Rightarrow> JStr a)"
  have fv: "first_vsix fs = Inr u" unfolding u_def by (rule first_vsix_wf[OF fs(2)])
  have u: "is_opt_str u" "opt_str_field u = Some (expected_download_url fs)"
    by (simp_all add: u_def split: option.splits)
  have gi: "getitem (JObj kvs) ''publisher'' = Inr (JObj p)"
    "getitem (JObj p) ''publisherName'' = Inr (JStr pn)"
    "getitem (JObj kvs) ''extensionName'' = Inr (JStr n)"
    "getitem (JObj kvs) ''versions'' = Inr (JArr (JObj vk # later))"
    "getitem (JObj vk) ''version'' = Inr (JStr ver)"
    "getitem (JObj vk) ''files'' = Inr (JArr fs)"
    using pv(1) p pn n vs(1) v ver fs(1) by simp_all
  have "parse_extension e = Extension (JStr pn) dm (JStr n) (JStr dn) (JStr lu) ds (JStr ver) u"
    unfolding parse_extension_def e
    by (simp only: gi dm lu dn ds and_then_simps getitem0.simps iterate.simps fv)
  also have "\<dots> = Inr \<lparr>publisher = pn, domain = the (opt_str_field dm), name = n, display_name = dn,
          last_updated = lu, description = the (opt_str_field ds), version = Some ver,
          download_url = the (opt_str_field u)\<rparr>"
    by (rule Extension_ok[OF dm(2) ds(2) u(1)])
  finally show ?thesis
    using e vs(1) v ver fs(1) n u(2) by simp
qed

lemma parse_extension_later_versions:
  "parse_extension (JObj ((''versions'', JArr (v # later)) # e))
     = parse_extension (JObj ((''versions'', JArr [v]) # e))"
  by (simp add: parse_extension_def and_then_simps)

lemma parse_loop_wf:
  "list_all well_formed_entry es \<Longrightarrow>
   \<exists>xs. parse_loop es acc = Inr (acc @ xs)
      \<and> map version xs = map (\<lambda>e. field_str (first_version e) ''version'') es
      \<and> map download_url xs = map (\<lambda>e. expected_download_url (files_of (first_version e))) es
      \<and> map name xs = map (\<lambda>e. the (field_str e ''extensionName'')) es"
proof (induction es arbitrary: acc)
  case Nil
  then show ?case by simp
next
  case (Cons e es)
  from Cons.prems have wf: "well_formed_entry e" and rest: "list_all well_formed_entry es"
    by simp_all
  from parse_extension_wf[OF wf] obtain x where x:
    "parse_extension e = Inr x"
    "version x = field_str (first_version e) ''version''"
    "download_url x = expected_download_url (files_of (first_version e))"
    "name x = the (field_str e ''extensionName'')"
    by blast
  from Cons.IH[OF rest, of "acc @ [x]"] obtain xs where xs:
    "parse_loop es (acc @ [x]) = Inr ((acc @ [x]) @ xs)"
    "map version xs = map (\<lambda>e. field_str (first_version e) ''version'') es"
    "map download_url xs = map (\<lambda>e. expected_download_url (files_of (first_version e))) es"
    "map name xs = map (\<lambda>e. the (field_str e ''extensionName'')) es"
    by blast
  have "parse_loop (e # es) acc = Inr (acc @ (x # xs))"
    using x(1) xs(1) by (simp add: and_then_simps)
  then show ?case using x xs by (intro exI[of _ "x # xs"]) simp
qed

lemma getitem_not_object:
  "(\<And>kvs. j \<noteq> JObj kvs) \<Longrightarrow> getitem j k = Inl TypeError"
  by (cases j) auto

lemma not_object_predicates:
  assumes "\<And>kvs. j \<noteq> JObj kvs"
  shows "\<not> missing_in_entry j" "\<not> accepted_entry j" "\<not> missing_in_version j"
    "\<not> accepted_version j" "\<not> well_formed_publisher j" "\<not> missing_in_extensions j"
  using assms by (cases j; auto)+

lemma is_str_iff: "str_field j \<noteq> None \<longleftrightarrow> is_str j"
  by (cases j) simp_all

lemma is_opt_str_iff: "opt_str_field j \<noteq> None \<longleftrightarrow> is_opt_str j"
  by (cases j) simp_all

lemma Extension_result:
  "Extension p d n dn lu ds v u =
     (if is_str p \<and> is_opt_str d \<and> is_str n \<and> is_str dn \<and> is_str lu \<and> is_opt_str ds \<and>
         is_opt_str v \<and> is_opt_str u
      then Inr \<lparr>publisher = the (str_field p), domain = the (opt_str_field d),
                name = the (str_field n), display_name = the (str_field dn),
                last_updated = the (str_field lu), description = the (opt_str_field ds),
                version = the (opt_str_field v), download_url = the (opt_str_field u)\<rparr>
      else Inl ValidationError)"
  unfolding Extension_def by (simp only: is_str_iff is_opt_str_iff)

text \<open>the three outcomes of the scan of the files\<close>

lemma first_vsix_outcome:
  "(missing_in_files fs \<and> \<not> accepted_files fs \<and> first_vsix fs = Inl KeyError)
   \<or> (\<not> missing_in_files fs \<and> \<not> accepted_files fs \<and> first_vsix fs = Inl TypeError)
   \<or> (\<not> missing_in_files fs \<and> (\<exists>u. first_vsix fs = Inr u \<and> (accepted_files fs \<longleftrightarrow> is_opt_str u)))"
proof (induction fs)
  case Nil
  then show ?case by simp
next
  case (Cons f fs)
  show ?case
  proof (cases f)
    case (JObj kv)
    show ?thesis
    proof (cases "map_of kv ''assetType''")
      case None
      with JObj show ?thesis by (simp add: and_then_simps)
    next
      case (Some t)
      show ?thesis
      proof (cases "t = JStr vsix_asset_type")
        case True
        show ?thesis
        proof (cases "map_of kv ''source''")
          case None
          with JObj Some True show ?thesis by (simp add: and_then_simps present_def)
        next
          case s: (Some s)
          with JObj Some True show ?thesis by (simp add: and_then_simps present_def)
        qed
      next
        case False
        with JObj Some Cons.IH show ?thesis by (simp add: and_then_simps)
      qed
    qed
  qed (simp_all add: and_then_simps)
qed

lemma first_vsix_strings:
  "first_vsix (map JStr ks) = (if ks = [] then Inr JNull else Inl TypeError)"
  by (cases ks) (simp_all add: and_then_simps)

lemma first_vsix_chars:
  "first_vsix (map (\<lambda>c. JStr [c]) s) = (if s = [] then Inr JNull else Inl TypeError)"
  by (cases s) (simp_all add: and_then_simps)

lemma file_list_outcome:
  "(missing_in_file_list fl \<and> \<not> accepted_file_list fl
      \<and> and_then (iterate fl) first_vsix = Inl KeyError)
   \<or> (\<not> missing_in_file_list fl \<and> \<not> accepted_file_list fl
      \<and> and_then (iterate fl) first_vsix = Inl TypeError)
   \<or> (\<not> missing_in_file_list fl
      \<and> (\<exists>u. and_then (iterate fl) first_vsix = Inr u \<and> (accepted_file_list fl \<longleftrightarrow> is_opt_str u)))"
proof (cases fl)
  case (JArr fs)
  with first_vsix_outcome[of fs] show ?thesis by (simp add: and_then_simps)
next
  case (JObj kvs)
  then show ?thesis
    by (cases "kvs = []") (simp_all add: and_then_simps first_vsix_strings)
next
  case (JStr s)
  then show ?thesis
    by (cases "s = []") (simp_all add: and_then_simps first_vsix_chars)
qed (simp_all add: and_then_simps)


lemma version_outcome:
  fixes F :: "json \<Rightarrow> json \<Rightarrow> py_error + extension"
    and v pn dm n dn lu ds :: json
  assumes F: "\<And>ver u. F ver u = Extension pn dm n dn lu ds ver u"
  defines "ok \<equiv> is_str pn \<and> is_opt_str dm \<and> is_str n \<and> is_str dn \<and> is_str lu \<and> is_opt_str ds"
  defines "G \<equiv> and_then (getitem v ''version'') (\<lambda>ver.
                 and_then (and_then (and_then (getitem v ''files'') iterate) first_vsix) (F ver))"
  shows "(missing_in_version v \<and> \<not> accepted_version v \<and> G = Inl KeyError)
       \<or> (\<not> missing_in_version v \<and> \<not> (accepted_version v \<and> ok)
            \<and> G \<in> {Inl TypeError, Inl ValidationError})
       \<or> (\<not> missing_in_version v \<and> accepted_version v \<and> ok \<and> (\<exists>x. G = Inr x))"
proof (cases "\<exists>kvs. v = JObj kvs")
  case False
  then have no: "\<And>kvs. v \<noteq> JObj kvs" by blast
  from getitem_not_object[OF no, of "''version''"] not_object_predicates(3,4)[OF no]
  show ?thesis by (simp add: G_def and_then_simps)
next
  case True
  then obtain vk where v: "v = JObj vk" by blast
  show ?thesis
  proof (cases "map_of vk ''version''")
    case None
    then show ?thesis by (simp add: G_def v and_then_simps present_def)
  next
    case (Some ver)
    show ?thesis
    proof (cases "map_of vk ''files''")
      case None
      with Some show ?thesis by (simp add: G_def v and_then_simps present_def)
    next
      case fl: (Some fl)
      have G: "G = and_then (and_then (iterate fl) first_vsix) (F ver)"
        using Some fl by (simp add: G_def v and_then_simps)
      have m: "missing_in_version v = missing_in_file_list fl"
        using Some fl by (simp add: v)
      have a: "accepted_version v = (is_opt_str ver \<and> accepted_file_list fl)"
        using Some fl by (simp add: v present_def)
      from file_list_outcome[of fl] show ?thesis
      proof (elim disjE conjE exE)
        assume "missing_in_file_list fl" "\<not> accepted_file_list fl"
          "and_then (iterate fl) first_vsix = Inl KeyError"
        then show ?thesis by (simp add: G m a and_then_simps)
      next
        assume "\<not> missing_in_file_list fl" "\<not> accepted_file_list fl"
          "and_then (iterate fl) first_vsix = Inl TypeError"
        then show ?thesis by (simp add: G m a and_then_simps)
      next
        fix u
        assume "\<not> missing_in_file_list fl" "and_then (iterate fl) first_vsix = Inr u"
          "accepted_file_list fl \<longleftrightarrow> is_opt_str u"
        then show ?thesis
          by (auto simp: G m a and_then_simps F Extension_result ok_def)
      qed
    qed
  qed
qed

lemma default_is_str:
  "is_str (case map_of kvs k of None \<Rightarrow> JStr d | Some v \<Rightarrow> v) \<longleftrightarrow> absent_or is_str kvs k"
  "is_opt_str (case map_of kvs k of None \<Rightarrow> JStr d | Some v \<Rightarrow> v) \<longleftrightarrow> absent_or is_opt_str kvs k"
  by (simp_all add: absent_or_def split: option.splits)

lemma getitem0_outcome:
  "(no_first_element vs \<and> first_element vs = None \<and> getitem0 vs \<in> {Inl KeyError, Inl IndexError})
   \<or> (\<not> no_first_element vs \<and> first_element vs = None \<and> getitem0 vs = Inl TypeError)
   \<or> (\<not> no_first_element vs \<and> (\<exists>v. first_element vs = Some v \<and> getitem0 vs = Inr v))"
proof (cases vs)
  case (JArr xs)
  then show ?thesis by (cases xs) simp_all
next
  case (JStr s)
  then show ?thesis by (cases s) simp_all
qed simp_all

lemma versions_outcome:
  fixes F :: "json \<Rightarrow> json \<Rightarrow> py_error + extension"
    and e :: "(string \<times> json) list"
    and pn dm n dn lu ds :: json
  assumes F: "\<And>ver u. F ver u = Extension pn dm n dn lu ds ver u"
  defines "ok \<equiv> is_str pn \<and> is_opt_str dm \<and> is_str n \<and> is_str dn \<and> is_str lu \<and> is_opt_str ds"
  defines "H \<equiv> and_then (and_then (getitem (JObj e) ''versions'') getitem0) (\<lambda>v.
                 and_then (getitem v ''version'') (\<lambda>ver.
                   and_then (and_then (and_then (getitem v ''files'') iterate) first_vsix) (F ver)))"
  shows "(missing_in_versions (map_of e ''versions'') \<and> \<not> present accepted_versions e ''versions''
            \<and> H \<in> {Inl KeyError, Inl IndexError})
       \<or> (\<not> missing_in_versions (map_of e ''versions'')
            \<and> \<not> (present accepted_versions e ''versions'' \<and> ok)
            \<and> H \<in> {Inl TypeError, Inl ValidationError})
       \<or> (\<not> missing_in_versions (map_of e ''versions'')
            \<and> present accepted_versions e ''versions'' \<and> ok \<and> (\<exists>x. H = Inr x))"
proof (cases "map_of e ''versions''")
  case None
  then show ?thesis by (simp add: H_def and_then_simps present_def)
next
  case (Some vs)
  have p: "present accepted_versions e ''versions'' = accepted_versions vs"
    using Some by (simp add: present_def)
  from getitem0_outcome[of vs] show ?thesis
  proof (elim disjE conjE exE)
    assume "no_first_element vs" "first_element vs = None"
      "getitem0 vs \<in> {Inl KeyError, Inl IndexError}"
    then show ?thesis using Some
      by (auto simp: H_def and_then_simps p accepted_versions_def)
  next
    assume "\<not> no_first_element vs" "first_element vs = None" "getitem0 vs = Inl TypeError"
    then show ?thesis using Some
      by (simp add: H_def and_then_simps p accepted_versions_def)
  next
    fix v
    assume nf: "\<not> no_first_element vs" and fe: "first_element vs = Some v"
      and g0: "getitem0 vs = Inr v"
    have H: "H = and_then (getitem v ''version'') (\<lambda>ver.
                   and_then (and_then (and_then (getitem v ''files'') iterate) first_vsix) (F ver))"
      using Some g0 by (simp add: H_def and_then_simps)
    have m: "missing_in_versions (map_of e ''versions'') = missing_in_version v"
      using Some nf fe by simp
    have a: "present accepted_versions e ''versions'' = accepted_version v"
      using fe by (simp add: p accepted_versions_def)
    from version_outcome[of F pn dm n dn lu ds v, OF F] show ?thesis
      unfolding H m a ok_def by blast
  qed
qed

lemma parse_extension_outcome:
  "(missing_in_entry ext \<and> \<not> accepted_entry ext
      \<and> parse_extension ext \<in> {Inl KeyError, Inl IndexError})
   \<or> (\<not> missing_in_entry ext \<and> \<not> accepted_entry ext
      \<and> parse_extension ext \<in> {Inl TypeError, Inl ValidationError})
   \<or> (\<not> missing_in_entry ext \<and> accepted_entry ext \<and> (\<exists>x. parse_extension ext = Inr x))"
proof (cases "\<exists>kvs. ext = JObj kvs")
  case False
  then have no: "\<And>kvs. ext \<noteq> JObj kvs" by blast
  from getitem_not_object[OF no, of "''publisher''"] not_object_predicates(1,2)[OF no]
  show ?thesis by (simp add: parse_extension_def and_then_simps)
next
  case True
  then obtain e where e: "ext = JObj e" by blast
  show ?thesis
  proof (cases "map_of e ''publisher''")
    case None
    then show ?thesis by (simp add: e parse_extension_def and_then_simps present_def)
  next
    case (Some pv)
    show ?thesis
    proof (cases "\<exists>p. pv = JObj p")
      case False
      then have no: "\<And>p. pv \<noteq> JObj p" by blast
      have m: "\<not> missing_in_entry ext" using Some no by (cases pv) (auto simp: e)
      have a: "\<not> accepted_entry ext"
        using Some not_object_predicates(5)[OF no] by (simp add: e present_def)
      from getitem_not_object[OF no, of "''publisherName''"] Some m a show ?thesis
        by (simp add: e parse_extension_def and_then_simps)
    next
      case True
      then obtain p where p: "pv = JObj p" by blast
      show ?thesis
      proof (cases "map_of p ''publisherName''")
        case None
        with Some p show ?thesis
          by (simp add: e parse_extension_def and_then_simps present_def)
      next
        case pn: (Some pn)
        show ?thesis
        proof (cases "map_of e ''extensionName''")
          case None
          with Some p pn show ?thesis
            by (simp add: e parse_extension_def and_then_simps present_def)
        next
          case n: (Some n)
          define dm where "dm = (case map_of p ''domain'' of
                                   None \<Rightarrow> JStr ''marketplace.visualstudio.com'' | Some v \<Rightarrow> v)"
          define lu where "lu = (case map_of e ''lastUpdated'' of
                                   None \<Rightarrow> JStr ''Unknown'' | Some v \<Rightarrow> v)"
          define dn where "dn = (case map_of e ''displayName'' of
                                   None \<Rightarrow> JStr ''N/A'' | Some v \<Rightarrow> v)"
          define ds where "ds = (case map_of e ''shortDescription'' of
                                   None \<Rightarrow> JStr ''No description available.'' | Some v \<Rightarrow> v)"
          define F where "F = (\<lambda>ver u. Extension pn dm n dn lu ds ver u)"
          have F: "\<And>ver u. F ver u = Extension pn dm n dn lu ds ver u" by (simp add: F_def)
          have pe: "parse_extension ext =
              and_then (and_then (getitem (JObj e) ''versions'') getitem0) (\<lambda>v.
                 and_then (getitem v ''version'') (\<lambda>ver.
                   and_then (and_then (and_then (getitem v ''files'') iterate) first_vsix) (F ver)))"
            using Some p pn n
            by (simp add: e parse_extension_def and_then_simps dm_def lu_def dn_def ds_def F_def)
          have m: "missing_in_entry ext = missing_in_versions (map_of e ''versions'')"
            using Some p pn n by (simp add: e)
          have ok: "(is_str pn \<and> is_opt_str dm \<and> is_str n \<and> is_str dn \<and> is_str lu \<and> is_opt_str ds)
                 = (present well_formed_publisher e ''publisher'' \<and> present is_str e ''extensionName''
                    \<and> absent_or is_str e ''lastUpdated'' \<and> absent_or is_str e ''displayName''
                    \<and> absent_or is_opt_str e ''shortDescription'')"
            using Some p pn n
            by (auto simp: present_def dm_def lu_def dn_def ds_def default_is_str)
          have a: "accepted_entry ext =
                    (present accepted_versions e ''versions''
                     \<and> (is_str pn \<and> is_opt_str dm \<and> is_str n \<and> is_str dn \<and> is_str lu \<and> is_opt_str ds))"
            unfolding ok by (auto simp: e)
          from versions_outcome[of F pn dm n dn lu ds e, OF F] show ?thesis
            unfolding pe m a by blast
        qed
      qed
    qed
  qed
qed


lemma parse_loop_outcome:
  "(missing_in_entries es \<and> parse_loop es acc \<in> {Inl KeyError, Inl IndexError})
   \<or> (\<not> missing_in_entries es \<and> parse_loop es acc \<in> {Inl TypeError, Inl ValidationError})
   \<or> (\<not> missing_in_entries es \<and> (\<exists>xs. parse_loop es acc = Inr xs))"
proof (induction es arbitrary: acc)
  case Nil
  then show ?case by simp
next
  case (Cons e es)
  from parse_extension_outcome[of e] show ?case
  proof (elim disjE conjE exE)
    assume "missing_in_entry e" "parse_extension e \<in> {Inl KeyError, Inl IndexError}"
    then show ?thesis by (auto simp: and_then_simps)
  next
    assume "\<not> missing_in_entry e" "\<not> accepted_entry e"
      "parse_extension e \<in> {Inl TypeError, Inl ValidationError}"
    then show ?thesis by (auto simp: and_then_simps)
  next
    fix x
    assume "\<not> missing_in_entry e" "accepted_entry e" "parse_extension e = Inr x"
    with Cons.IH[of "acc @ [x]"] show ?thesis by (simp add: and_then_simps)
  qed
qed

lemma parse_loop_strings:
  "parse_loop (map JStr ks) acc = (if ks = [] then Inr acc else Inl TypeError)"
  by (cases ks) (simp_all add: and_then_simps parse_extension_def)

lemma parse_loop_chars:
  "parse_loop (map (\<lambda>c. JStr [c]) s) acc = (if s = [] then Inr acc else Inl TypeError)"
  by (cases s) (simp_all add: and_then_simps parse_extension_def)

lemma extensions_outcome:
  defines "E \<equiv> (\<lambda>r. and_then (and_then (getitem r ''extensions'') iterate)
                       (\<lambda>results. parse_loop results []))"
  shows "(missing_in_extensions r \<and> E r \<in> {Inl KeyError, Inl IndexError})
   \<or> (\<not> missing_in_extensions r \<and> E r \<in> {Inl TypeError, Inl ValidationError})
   \<or> (\<not> missing_in_extensions r \<and> (\<exists>xs. E r = Inr xs))"
proof (cases "\<exists>kvs. r = JObj kvs")
  case False
  then have no: "\<And>kvs. r \<noteq> JObj kvs" by blast
  from getitem_not_object[OF no, of "''extensions''"] not_object_predicates(6)[OF no]
  show ?thesis by (simp add: E_def and_then_simps)
next
  case True
  then obtain kvs where r: "r = JObj kvs" by blast
  show ?thesis
  proof (cases "map_of kvs ''extensions''")
    case None
    then show ?thesis by (simp add: E_def r and_then_simps)
  next
    case (Some ev)
    show ?thesis
    proof (cases ev)
      case (JArr es)
      with Some parse_loop_outcome[of es "[]"] show ?thesis
        by (simp add: E_def r and_then_simps)
    next
      case (JObj ks)
      with Some show ?thesis
        by (cases "ks = []") (simp_all add: E_def r and_then_simps parse_loop_strings)
    next
      case (JStr s)
      with Some show ?thesis
        by (cases "s = []") (simp_all add: E_def r and_then_simps parse_loop_chars)
    qed (simp_all add: E_def r and_then_simps Some)
  qed
qed

lemma parse_results_try_outcome:
  "(structure_absent data \<and> parse_results_try data \<in> {Inl KeyError, Inl IndexError})
   \<or> (\<not> structure_absent data \<and> parse_results_try data \<in> {Inl TypeError, Inl ValidationError})
   \<or> (\<not> structure_absent data \<and> (\<exists>xs. parse_results_try data = Inr xs))"
proof (cases data)
  case (JObj obj)
  show ?thesis
  proof (cases "map_of obj ''results''")
    case None
    then show ?thesis by (simp add: JObj parse_results_try_def and_then_simps)
  next
    case (Some rs)
    from getitem0_outcome[of rs] show ?thesis
    proof (elim disjE conjE exE)
      assume "no_first_element rs" "getitem0 rs \<in> {Inl KeyError, Inl IndexError}"
      then show ?thesis using Some
        by (auto simp: JObj parse_results_try_def and_then_simps)
    next
      assume "\<not> no_first_element rs" "first_element rs = None" "getitem0 rs = Inl TypeError"
      then show ?thesis using Some
        by (simp add: JObj parse_results_try_def and_then_simps)
    next
      fix r
      assume nf: "\<not> no_first_element rs" and fe: "first_element rs = Some r"
        and g0: "getitem0 rs = Inr r"
      have t: "parse_results_try data =
                 and_then (and_then (getitem r ''extensions'') iterate)
                   (\<lambda>results. parse_loop results [])"
        using Some g0 by (simp add: JObj parse_results_try_def and_then_simps)
      have m: "structure_absent data = missing_in_extensions r"
        using Some nf fe by (simp add: JObj)
      from extensions_outcome[of r] show ?thesis unfolding t m by blast
    qed
  qed
qed (simp_all add: parse_results_try_def and_then_simps)

lemma parse_results_ParseError:
  "parse_results data = Inl ParseError \<longleftrightarrow> structure_absent data"
  using parse_results_try_outcome[of data]
  by (auto simp: parse_results_def split: sum.splits)

lemma well_formed_accepted: "well_formed_entry e \<Longrightarrow> accepted_entry e"
  using parse_extension_wf[of e] parse_extension_outcome[of e] by auto

section \<open>Properties of the search\<close>

lemma search_extensions_answered:
  assumes "post env (search_payload q byp ps pn) = Inr resp"
    and "\<not> stop_during_post env"
    and "200 \<le> status_code resp" and "status_code resp \<le> 299"
    and "json_body resp = Inr data"
  shows "fst (search_extensions h env q byp ps pn)
           = (if truthy data then parse_results data else Inr [])"
  using assms
  by (simp add: search_extensions_def call_api_def call_api_try_def raise_for_status_def
        and_then_simps Let_def)

lemma search_extensions_request_error:
  assumes "post env (search_payload q byp ps pn) = Inl (RequestError m)"
  shows "fst (search_extensions h env q byp ps pn) = Inl (RequestFailed (RequestError m))"
  using assms
  by (simp add: search_extensions_def call_api_def call_api_try_def and_then_simps Let_def)

text \<open>
  Claim C4. Every call of \<^verbatim>\<open>search_extensions\<close> clears the cancellation flag before the
  request is issued, so a \<^verbatim>\<open>stop()\<close> from before the call does not persist: the call
  gives the same result and the same final flag whatever the flag was, and the flag is
  clear afterwards unless \<^verbatim>\<open>stop()\<close> ran during the request. If \<^verbatim>\<open>stop()\<close> runs while
  the request is awaited and a response arrives, whatever its status and body, the search
  returns the empty list and raises nothing.
\<close>

theorem C4_search_cancellation:
  "search_extensions (h\<lparr>stop_event := b\<rparr>) env q byp ps pn = search_extensions h env q byp ps pn
   \<and> (\<not> stop_during_post env \<longrightarrow> \<not> stop_event (snd (search_extensions h env q byp ps pn)))
   \<and> (stop_during_post env \<longrightarrow>
        (\<forall>resp. post env (search_payload q byp ps pn) = Inr resp \<longrightarrow>
           fst (search_extensions h env q byp ps pn) = Inr []))"
  by (simp add: search_extensions_def call_api_def Let_def stop_def call_api_try_def and_then_simps)

text \<open>
  The claim at work: a handler stopped before the call searches as a fresh one does and
  ends with a clear flag; a well-formed answer that arrives after \<^verbatim>\<open>stop()\<close> gives no
  records.
\<close>

theorem C4_witness:
  "search_extensions (stop new_handler) (answering (response_of [sample_entry]) False) ''python'' False 10 1
     = search_extensions new_handler (answering (response_of [sample_entry]) False) ''python'' False 10 1
   \<and> \<not> stop_event (snd (search_extensions (stop new_handler)
         (answering (response_of [sample_entry]) False) ''python'' False 10 1))
   \<and> fst (search_extensions new_handler (answering (response_of [sample_entry]) True)
         ''python'' False 10 1) = Inr []"
proof -
  have 1: "search_extensions (stop new_handler) (answering (response_of [sample_entry]) False) ''python'' False 10 1
     = search_extensions new_handler (answering (response_of [sample_entry]) False) ''python'' False 10 1"
    using C4_search_cancellation[where h = new_handler and b = True
        and env = "answering (response_of [sample_entry]) False"]
    by (simp add: stop_def)
  have 2: "\<not> stop_event (snd (search_extensions (stop new_handler)
         (answering (response_of [sample_entry]) False) ''python'' False 10 1))"
    using C4_search_cancellation[where h = "stop new_handler"
        and env = "answering (response_of [sample_entry]) False"]
    by (simp add: answering_def)
  have 3: "fst (search_extensions new_handler (answering (response_of [sample_entry]) True)
         ''python'' False 10 1) = Inr []"
    using C4_search_cancellation[where h = new_handler
        and env = "answering (response_of [sample_entry]) True" and q = "''python''"
        and byp = False and ps = 10 and pn = 1]
    by (simp add: answering_def)
  from 1 2 3 show ?thesis by simp
qed

text \<open>
  Claim C5, as the code has it. For a response with a success status and a decoded body,
  the call fails with the parsing error exactly when the body is not empty (not false)
  and structure is absent at a place the parser reaches: a missing \<open>results\<close>,
  \<open>extensions\<close>, \<open>publisher\<close>, \<open>publisherName\<close>, \<open>extensionName\<close>,
  \<open>versions\<close>, \<open>version\<close>, \<open>files\<close>, \<open>assetType\<close> or \<open>source\<close> key, or a
  \<open>results\<close> or \<open>versions\<close> value without a first element, also after any number of
  entries for which the parser returns a record. No records are returned then. The
  parsing error is not the error of a failed request. A decoded body that is empty or
  otherwise false (\<^verbatim>\<open>{}\<close>, \<^verbatim>\<open>[]\<close>, \<^verbatim>\<open>null\<close>, \<^verbatim>\<open>0\<close>) is not parsed at all: the
  call returns the empty list and no error.
\<close>

theorem C5_absent_structure:
  assumes "post env (search_payload q byp ps pn) = Inr resp"
    and "\<not> stop_during_post env"
    and "200 \<le> status_code resp" and "status_code resp \<le> 299"
    and "json_body resp = Inr data"
  shows "(fst (search_extensions h env q byp ps pn) = Inl ParseError
            \<longleftrightarrow> truthy data \<and> structure_absent data)
       \<and> (\<not> truthy data \<longrightarrow> fst (search_extensions h env q byp ps pn) = Inr [])
       \<and> (\<forall>env' m. post env' (search_payload q byp ps pn) = Inl (RequestError m) \<longrightarrow>
             fst (search_extensions h env' q byp ps pn) = Inl (RequestFailed (RequestError m))
             \<and> RequestFailed (RequestError m) \<noteq> ParseError)"
  using search_extensions_answered[OF assms, of h] search_extensions_request_error
  by (simp add: parse_results_ParseError)

text \<open>
  The amended claim at work: an entry without \<open>extensionName\<close> gives the parsing error
  and no record, after a well-formed entry as well as after an entry that is accepted
  without being well-formed; a response of a well-formed entry alone does not; an empty
  array as body gives the empty list.
\<close>

theorem C5_witness:
  "fst (search_extensions new_handler
         (answering (response_of [sample_entry, nameless_entry]) False) ''python'' False 10 1)
     = Inl ParseError
   \<and> fst (search_extensions new_handler
         (answering (response_of [null_version_entry, nameless_entry]) False) ''python'' False 10 1)
     = Inl ParseError
   \<and> fst (search_extensions new_handler
         (answering (response_of [sample_entry]) False) ''python'' False 10 1)
     \<noteq> Inl ParseError
   \<and> fst (search_extensions new_handler (answering (JArr []) False) ''python'' False 10 1) = Inr []"
proof -
  have t: "truthy (response_of es)" for es
    by (simp add: response_of_def)
  have a1: "structure_absent (response_of [sample_entry, nameless_entry])"
    by (simp add: response_of_def sample_entry_def nameless_entry_def present_def absent_or_def
          accepted_versions_def vsix_asset_type_def)
  have a2: "structure_absent (response_of [null_version_entry, nameless_entry])"
    by (simp add: response_of_def null_version_entry_def nameless_entry_def present_def
          absent_or_def accepted_versions_def)
  have a3: "\<not> structure_absent (response_of [sample_entry])"
    by (simp add: response_of_def sample_entry_def vsix_asset_type_def)
  have f: "\<not> truthy (JArr [])" by simp
  have env: "post (answering d False) (search_payload ''python'' False 10 1)
               = Inr \<lparr>status_code = 200, json_body = Inr d\<rparr>"
    "\<not> stop_during_post (answering d False)" for d
    by (simp_all add: answering_def)
  note c5 = C5_absent_structure[where h = new_handler, OF env, simplified]
  from c5[of "response_of [sample_entry, nameless_entry]"] t a1
  have 1: "fst (search_extensions new_handler
         (answering (response_of [sample_entry, nameless_entry]) False) ''python'' False 10 1)
     = Inl ParseError" by simp
  from c5[of "response_of [null_version_entry, nameless_entry]"] t a2
  have 2: "fst (search_extensions new_handler
         (answering (response_of [null_version_entry, nameless_entry]) False) ''python'' False 10 1)
     = Inl ParseError" by simp
  from c5[of "response_of [sample_entry]"] a3
  have 3: "fst (search_extensions new_handler
         (answering (response_of [sample_entry]) False) ''python'' False 10 1)
     \<noteq> Inl ParseError" by simp
  from c5[of "JArr []"] f
  have 4: "fst (search_extensions new_handler (answering (JArr []) False) ''python'' False 10 1)
             = Inr []" by simp
  from 1 2 3 4 show ?thesis by simp
qed

text \<open>
  The claim as stated fails for the empty object: it has no \<open>results\<close> key, and the
  search returns the empty list without any error, because \<^verbatim>\<open>search_extensions\<close> parses
  only \<^verbatim>\<open>if data\<close>.
\<close>

theorem C5_empty_object_counterexample:
  "structure_absent (JObj [])
   \<and> fst (search_extensions new_handler (answering (JObj []) False) ''python'' False 10 1) = Inr []"
  by (simp add: search_extensions_def call_api_def call_api_try_def raise_for_status_def
        and_then_simps Let_def answering_def new_handler_def)

text \<open>
  Claim C6. For a response whose entries are all well-formed, the search returns one
  record per entry, in order; the record's version is the version string of the first
  element of the entry's \<open>versions\<close> array, and its download URL is the \<open>source\<close> of
  the first file of that version whose \<open>assetType\<close> is
  \<^verbatim>\<open>Microsoft.VisualStudio.Services.VSIXPackage\<close>, unset when there is no such file. The
  versions after the first are never read: for any entry at all, dropping them does not
  change what the parser returns.
\<close>

theorem C6_first_version_and_vsix_url:
  assumes "post env (search_payload q byp ps pn) = Inr resp"
    and "\<not> stop_during_post env"
    and "200 \<le> status_code resp" and "status_code resp \<le> 299"
    and "json_body resp = Inr (JObj obj)"
    and "map_of obj ''results'' = Some (JArr (JObj r # rs))"
    and "map_of r ''extensions'' = Some (JArr es)"
    and "list_all well_formed_entry es"
  shows "(\<exists>xs. fst (search_extensions h env q byp ps pn) = Inr xs
          \<and> map version xs = map (\<lambda>e. field_str (first_version e) ''version'') es
          \<and> map download_url xs
              = map (\<lambda>e. expected_download_url (files_of (first_version e))) es)
       \<and> (\<forall>e v later. parse_extension (JObj ((''versions'', JArr (v # later)) # e))
                        = parse_extension (JObj ((''versions'', JArr [v]) # e)))"
proof -
  from assms(6) have ne: "truthy (JObj obj)" by auto
  from parse_loop_wf[OF assms(8), of "[]"] obtain xs where xs:
    "parse_loop es [] = Inr xs"
    "map version xs = map (\<lambda>e. field_str (first_version e) ''version'') es"
    "map download_url xs = map (\<lambda>e. expected_download_url (files_of (first_version e))) es"
    by auto
  have "parse_results (JObj obj) = Inr xs"
    using assms(6,7) xs(1)
    by (simp add: parse_results_def parse_results_try_def and_then_simps)
  with search_extensions_answered[OF assms(1-5), of h] ne
  have "fst (search_extensions h env q byp ps pn) = Inr xs" by simp
  with xs(2,3) parse_extension_later_versions show ?thesis by blast
qed

text \<open>
  The claim on the sample entry: two versions, the first with files \<open>Other \<mapsto> A\<close> and
  \<open>VSIXPackage \<mapsto> B\<close>; the record has version \<open>2.0\<close> and download URL \<open>B\<close>.
\<close>

theorem C6_witness:
  "\<exists>x. fst (search_extensions new_handler (answering (response_of [sample_entry]) False)
             ''python'' False 10 1) = Inr [x]
       \<and> version x = Some ''2.0'' \<and> download_url x = Some ''B''"
proof -
  have wf: "list_all well_formed_entry [sample_entry]"
    by (simp add: sample_entry_def present_def absent_or_def vsix_asset_type_def)
  from C6_first_version_and_vsix_url[of "answering (response_of [sample_entry]) False"
      "''python''" False 10 1
      "\<lparr>status_code = 200, json_body = Inr (response_of [sample_entry])\<rparr>"
      "[(''results'', JArr [JObj [(''extensions'', JArr [sample_entry])]])]"
      "[(''extensions'', JArr [sample_entry])]" "[]" "[sample_entry]" new_handler, OF _ _ _ _ _ _ _ wf]
  obtain xs where xs: "fst (search_extensions new_handler (answering (response_of [sample_entry]) False)
             ''python'' False 10 1) = Inr xs"
    "map version xs = map (\<lambda>e. field_str (first_version e) ''version'') [sample_entry]"
    "map download_url xs = map (\<lambda>e. expected_download_url (files_of (first_version e))) [sample_entry]"
    by (auto simp: answering_def response_of_def)
  from xs(2) obtain x where x: "xs = [x]" by (cases xs) auto
  from xs(2,3) x have "version x = Some ''2.0''" "download_url x = Some ''B''"
    by (simp_all add: sample_entry_def expected_download_url_def is_vsix_file_def vsix_asset_type_def)
  with xs(1) x show ?thesis by blast
qed

section \<open>Properties of a download\<close>

lemma running_totals_bounds:
  "\<forall>c\<in>set cs. c \<noteq> [] \<Longrightarrow> \<forall>x\<in>set (running_totals d cs). d < x"
proof (induction cs arbitrary: d)
  case Nil
  then show ?case by simp
next
  case (Cons c cs)
  from Cons.prems have c: "0 < int (length c)" and rest: "\<forall>c\<in>set cs. c \<noteq> []" by simp_all
  from Cons.IH[OF rest, of "d + int (length c)"] c show ?case by fastforce
qed

lemma running_totals_increasing:
  "\<forall>c\<in>set cs. c \<noteq> [] \<Longrightarrow> sorted_wrt (<) (running_totals d cs)"
proof (induction cs arbitrary: d)
  case Nil
  then show ?case by simp
next
  case (Cons c cs)
  from Cons.prems have rest: "\<forall>c\<in>set cs. c \<noteq> []" by simp
  from Cons.IH[OF rest] running_totals_bounds[OF rest] show ?case by simp
qed

lemma running_totals_last:
  "cs \<noteq> [] \<Longrightarrow> last (running_totals d cs) = d + int (length (concat cs))"
proof (induction cs arbitrary: d)
  case Nil
  then show ?case by simp
next
  case (Cons c cs)
  show ?case
  proof (cases cs)
    case Nil
    then show ?thesis by simp
  next
    case (Cons c' cs')
    then have "cs \<noteq> []" by simp
    from Cons.IH[OF this, of "d + int (length c)"] Cons show ?thesis by simp
  qed
qed

lemma running_totals_Nil: "running_totals d cs = [] \<longleftrightarrow> cs = []"
  by (cases cs) simp_all

lemma progress_values_append:
  "progress_values (xs @ ys) = progress_values xs @ progress_values ys"
  by (induction xs rule: progress_values.induct) simp_all

lemma completions_append:
  "completions (xs @ ys) = completions xs @ completions ys"
  by (induction xs rule: completions.induct) simp_all

lemma progress_values_map: "progress_values (map (\<lambda>d. Progress d t) ds) = ds"
  by (induction ds) simp_all

lemma completions_map: "completions (map (\<lambda>d. Progress d t) ds) = []"
  by (induction ds) simp_all

lemmas stream_loop_Chunk = stream_loop.simps(3)

lemma stream_loop_Chunk_cases:
  obtains
    (write_failed) e where "write_error env (length (written st)) = Some e"
      and "stream_loop env pcb tsz (Chunk chunk # rest) st = (Some e, st)"
  | (no_callback) "pcb = None"
      and "stream_loop env pcb tsz (Chunk chunk # rest) st
             = stream_loop env pcb tsz rest (wrote st chunk)"
      and "write_error env (length (written st)) = None"
  | (callback_raised) f e where "pcb = Some f"
      and "f (downloaded (wrote st chunk)) tsz = Some e"
      and "stream_loop env pcb tsz (Chunk chunk # rest) st
             = (Some e, reported (wrote st chunk) tsz)"
      and "write_error env (length (written st)) = None"
  | (callback_returned) f where "pcb = Some f"
      and "f (downloaded (wrote st chunk)) tsz = None"
      and "stream_loop env pcb tsz (Chunk chunk # rest) st
             = stream_loop env pcb tsz rest (reported (wrote st chunk) tsz)"
      and "write_error env (length (written st)) = None"
proof (cases "write_error env (length (written st))")
  case (Some e)
  then show ?thesis using write_failed by (simp only: stream_loop_Chunk option.case)
next
  case None
  show ?thesis
  proof (cases pcb)
    case n: None
    with None show ?thesis using no_callback by (simp only: stream_loop_Chunk option.case)
  next
    case (Some f)
    show ?thesis
    proof (cases "f (downloaded (wrote st chunk)) tsz")
      case r: None
      with None Some show ?thesis using callback_returned[of f]
        by (simp only: stream_loop_Chunk option.case)
    next
      case r: (Some e)
      with None Some show ?thesis using callback_raised[of f e]
        by (simp only: stream_loop_Chunk option.case)
    qed
  qed
qed

lemma wrote_simps:
  "written (wrote st c) = written st @ c"
  "downloaded (wrote st c) = downloaded st + int (length c)"
  "calls (wrote st c) = calls st"
  "opened (wrote st c) = opened st"
  by (simp_all add: wrote_def)

lemma reported_simps:
  "written (reported st t) = written st"
  "downloaded (reported st t) = downloaded st"
  "calls (reported st t) = calls st @ [Progress (downloaded st) t]"
  "opened (reported st t) = opened st"
  by (simp_all add: reported_def)

lemma stream_loop_success:
  "stream_loop env pcb tsz evs st = (None, st') \<Longrightarrow>
   st' = st\<lparr>written := written st @ concat (chunks_of evs),
            downloaded := downloaded st + int (length (concat (chunks_of evs))),
            calls := calls st @ reports pcb tsz (running_totals (downloaded st) (chunks_of evs))\<rparr>"
proof (induction evs arbitrary: st)
  case Nil
  then show ?case by (simp add: reports_def split: option.splits)
next
  case (Cons ev rest)
  show ?case
  proof (cases ev)
    case (StreamError e)
    with Cons.prems show ?thesis by simp
  next
    case (Chunk chunk)
    show ?thesis
    proof (cases rule: stream_loop_Chunk_cases[of env st pcb tsz chunk rest])
      case (write_failed e)
      with Cons.prems Chunk show ?thesis by simp
    next
      case no_callback
      with Cons.prems Chunk have "stream_loop env pcb tsz rest (wrote st chunk) = (None, st')"
        by simp
      from Cons.IH[OF this] no_callback(1) Chunk show ?thesis
        by (simp add: wrote_def reports_def)
    next
      case (callback_raised f e)
      with Cons.prems Chunk show ?thesis by simp
    next
      case (callback_returned f)
      with Cons.prems Chunk
      have "stream_loop env pcb tsz rest (reported (wrote st chunk) tsz) = (None, st')"
        by simp
      from Cons.IH[OF this] callback_returned(1) Chunk show ?thesis
        by (simp add: wrote_def reported_def reports_def)
    qed
  qed
qed

lemma stream_loop_completions:
  "completions (calls (snd (stream_loop env pcb tsz evs st))) = completions (calls st)"
proof (induction evs arbitrary: st)
  case Nil
  then show ?case by simp
next
  case (Cons ev rest)
  show ?case
  proof (cases ev)
    case (StreamError e)
    then show ?thesis by simp
  next
    case (Chunk chunk)
    show ?thesis
    proof (cases rule: stream_loop_Chunk_cases[of env st pcb tsz chunk rest])
      case (write_failed e)
      with Chunk show ?thesis by simp
    next
      case no_callback
      with Chunk Cons.IH[of "wrote st chunk"] show ?thesis by (simp add: wrote_simps)
    next
      case (callback_raised f e)
      with Chunk show ?thesis by (simp add: wrote_simps reported_simps completions_append)
    next
      case (callback_returned f)
      with Chunk Cons.IH[of "reported (wrote st chunk) tsz"] show ?thesis
        by (simp add: wrote_simps reported_simps completions_append)
    qed
  qed
qed

lemma stream_loop_opened:
  "opened (snd (stream_loop env pcb tsz evs st)) = opened st"
proof (induction evs arbitrary: st)
  case Nil
  then show ?case by simp
next
  case (Cons ev rest)
  show ?case
  proof (cases ev)
    case (StreamError e)
    then show ?thesis by simp
  next
    case (Chunk chunk)
    show ?thesis
    proof (cases rule: stream_loop_Chunk_cases[of env st pcb tsz chunk rest])
      case (write_failed e)
      with Chunk show ?thesis by simp
    next
      case no_callback
      with Chunk Cons.IH[of "wrote st chunk"] show ?thesis by (simp add: wrote_simps)
    next
      case (callback_raised f e)
      with Chunk show ?thesis by (simp add: wrote_simps reported_simps)
    next
      case (callback_returned f)
      with Chunk Cons.IH[of "reported (wrote st chunk) tsz"] show ?thesis
        by (simp add: wrote_simps reported_simps)
    qed
  qed
qed

lemma list_all_butlast: "list_all P xs \<Longrightarrow> list_all P (butlast xs)"
  by (induction xs) simp_all

lemma stream_loop_returned:
  assumes "list_all (returned pcb ccb) (calls st)"
  shows "list_all (returned pcb ccb) (butlast (calls (snd (stream_loop env pcb tsz evs st))))
       \<and> (fst (stream_loop env pcb tsz evs st) = None \<longrightarrow>
            list_all (returned pcb ccb) (calls (snd (stream_loop env pcb tsz evs st))))"
  using assms
proof (induction evs arbitrary: st)
  case Nil
  then show ?case by (simp add: list_all_butlast)
next
  case (Cons ev rest)
  note bl = list_all_butlast[OF Cons.prems]
  show ?case
  proof (cases ev)
    case (StreamError e)
    with bl show ?thesis by simp
  next
    case (Chunk chunk)
    show ?thesis
    proof (cases rule: stream_loop_Chunk_cases[of env st pcb tsz chunk rest])
      case (write_failed e)
      with Chunk bl show ?thesis by simp
    next
      case no_callback
      from Cons.prems have "list_all (returned pcb ccb) (calls (wrote st chunk))"
        by (simp add: wrote_simps)
      from Cons.IH[OF this] no_callback(2) Chunk show ?thesis by simp
    next
      case (callback_raised f e)
      with Chunk Cons.prems show ?thesis by (simp add: wrote_simps reported_simps)
    next
      case (callback_returned f)
      with Cons.prems have "list_all (returned pcb ccb) (calls (reported (wrote st chunk) tsz))"
        by (simp add: wrote_simps reported_simps)
      from Cons.IH[OF this] callback_returned(3) Chunk show ?thesis by simp
    qed
  qed
qed

lemma download_stream_success:
  assumes "download_stream env r tsz pcb ccb = (None, st)"
  shows "st = \<lparr>opened = True,
               written = concat (chunks_of (content r)),
               downloaded = int (length (concat (chunks_of (content r)))),
               calls = reports pcb tsz (running_totals 0 (chunks_of (content r)))
                        @ (case ccb of None \<Rightarrow> []
                           | Some f \<Rightarrow> [Completion (int (length (concat (chunks_of (content r))))) tsz])\<rparr>"
proof -
  from assms have mk: "makedirs_error env = None"
    by (cases "makedirs_error env") (simp_all add: download_stream_def)
  from assms mk have op: "open_error env = None"
    by (cases "open_error env") (simp_all add: download_stream_def)
  obtain r1 s1 where loop:
    "stream_loop env pcb tsz (content r) (initial_run\<lparr>opened := True\<rparr>) = (r1, s1)"
    by (cases "stream_loop env pcb tsz (content r) (initial_run\<lparr>opened := True\<rparr>)")
  from assms mk op loop have r1: "r1 = None"
    by (cases r1) (simp_all add: download_stream_def)
  from stream_loop_success[OF loop[unfolded r1]]
  have s1: "s1 = \<lparr>opened = True, written = concat (chunks_of (content r)),
               downloaded = int (length (concat (chunks_of (content r)))),
               calls = reports pcb tsz (running_totals 0 (chunks_of (content r)))\<rparr>"
    by (simp add: initial_run_def)
  show ?thesis
  proof (cases ccb)
    case None
    with assms mk op loop r1 s1 show ?thesis by (simp add: download_stream_def)
  next
    case (Some f)
    with assms mk op loop r1 s1 show ?thesis by (simp add: download_stream_def)
  qed
qed

lemma download_stream_error:
  assumes "download_stream env r tsz pcb ccb = (Some e, st)"
  shows "(completions (calls st) = []
          \<or> (\<exists>f pre. ccb = Some f \<and> f (downloaded st) tsz = Some e
                \<and> calls st = pre @ [Completion (downloaded st) tsz] \<and> completions pre = []))
       \<and> list_all (returned pcb ccb) (butlast (calls st))"
proof (cases "makedirs_error env")
  case (Some e')
  with assms show ?thesis by (auto simp: download_stream_def initial_run_def)
next
  case mk: None
  show ?thesis
  proof (cases "open_error env")
    case (Some e')
    with assms mk show ?thesis by (auto simp: download_stream_def initial_run_def)
  next
    case op: None
    obtain r1 s1 where loop:
      "stream_loop env pcb tsz (content r) (initial_run\<lparr>opened := True\<rparr>) = (r1, s1)"
      by (cases "stream_loop env pcb tsz (content r) (initial_run\<lparr>opened := True\<rparr>)")
    have init: "list_all (returned pcb ccb) (calls (initial_run\<lparr>opened := True\<rparr>))"
      by (simp add: initial_run_def)
    from stream_loop_completions[of env pcb tsz "content r" "initial_run\<lparr>opened := True\<rparr>"] loop
    have c1: "completions (calls s1) = []" by (simp add: initial_run_def)
    from stream_loop_returned[OF init, of env tsz "content r"] loop
    have ret: "list_all (returned pcb ccb) (butlast (calls s1))"
      "r1 = None \<longrightarrow> list_all (returned pcb ccb) (calls s1)" by simp_all
    show ?thesis
    proof (cases r1)
      case (Some e1)
      with assms mk op loop have "st = s1" by (simp add: download_stream_def)
      with c1 ret(1) show ?thesis by simp
    next
      case None
      show ?thesis
      proof (cases ccb)
        case n: None
        with assms mk op loop None show ?thesis by (simp add: download_stream_def)
      next
        case (Some f)
        with assms mk op loop None have
          st: "st = s1\<lparr>calls := calls s1 @ [Completion (downloaded s1) tsz]\<rparr>"
          and f: "f (downloaded s1) tsz = Some e"
          by (simp_all add: download_stream_def)
        from st f Some c1 ret(2) None show ?thesis by simp
      qed
    qed
  qed
qed

lemma download_body_cases:
  obtains
    (connect) e where "get_result env = Inl e"
      and "download_body env pcb ccb = (Some e, initial_run)"
  | (bad_status) r where "get_result env = Inr r" and "400 \<le> status r"
      and "download_body env pcb ccb = (Some (ClientResponseError (status r)), initial_run)"
  | (bad_length) r e where "get_result env = Inr r" and "status r < 400"
      and "content_length r = Inl e"
      and "download_body env pcb ccb = (Some e, initial_run)"
  | (streamed) r tsz where "get_result env = Inr r" and "status r < 400"
      and "content_length r = Inr tsz"
      and "download_body env pcb ccb = download_stream env r tsz pcb ccb"
proof (cases "get_result env")
  case (Inl e)
  then show ?thesis using connect by (simp add: download_body_def)
next
  case (Inr r)
  show ?thesis
  proof (cases "400 \<le> status r")
    case True
    with Inr show ?thesis using bad_status by (simp add: download_body_def)
  next
    case False
    show ?thesis
    proof (cases "content_length r")
      case l: (Inl e)
      with Inr False show ?thesis using bad_length[of r e] by (simp add: download_body_def)
    next
      case r: (Inr tsz)
      with Inr False show ?thesis using streamed[of r tsz] by (simp add: download_body_def)
    qed
  qed
qed

lemma download_file_discards:
  "download_tasks (snd (download_file m task u env pcb ccb)) = download_tasks m - {task}"
  by (cases "download_body env pcb ccb")
     (simp add: download_file_def Let_def split: option.splits)


lemma finish_task_others:
  "t' \<noteq> task \<Longrightarrow> pending (finish_task l task env) t' = pending l t'"
  "t' \<noteq> task \<Longrightarrow>
     t' \<in> download_tasks (DownloadManager (singleton (finish_task l task env)))
       \<longleftrightarrow> t' \<in> download_tasks (DownloadManager (singleton l))"
proof -
  assume ne: "t' \<noteq> task"
  show "pending (finish_task l task env) t' = pending l t'"
  proof (cases "pending l task")
    case None
    then show ?thesis by (simp add: finish_task_def)
  next
    case (Some co)
    obtain r m where "download_file (DownloadManager (singleton l)) task (url co) env
                          (progress_callback co) (completion_callback co) = (r, m)"
      by (cases "download_file (DownloadManager (singleton l)) task (url co) env
                          (progress_callback co) (completion_callback co)")
    with Some ne show ?thesis by (simp add: finish_task_def)
  qed
  show "t' \<in> download_tasks (DownloadManager (singleton (finish_task l task env)))
       \<longleftrightarrow> t' \<in> download_tasks (DownloadManager (singleton l))"
  proof (cases "pending l task")
    case None
    then show ?thesis by (simp add: finish_task_def)
  next
    case (Some co)
    obtain r m where dl: "download_file (DownloadManager (singleton l)) task (url co) env
                          (progress_callback co) (completion_callback co) = (r, m)"
      by (cases "download_file (DownloadManager (singleton l)) task (url co) env
                          (progress_callback co) (completion_callback co)")
    from download_file_discards[of "DownloadManager (singleton l)" task "url co" env
        "progress_callback co" "completion_callback co"] dl
    have "download_tasks m = download_tasks (DownloadManager (singleton l)) - {task}" by simp
    with Some dl ne show ?thesis by (simp add: finish_task_def DownloadManager_def)
  qed
qed

lemma download_body_sources:
  "get_result env = Inl e \<Longrightarrow> fst (download_body env pcb ccb) = Some e"
  "get_result env = Inr r \<Longrightarrow> 400 \<le> status r \<Longrightarrow>
     fst (download_body env pcb ccb) = Some (ClientResponseError (status r))"
  "get_result env = Inr r \<Longrightarrow> status r < 400 \<Longrightarrow> content_length r = Inr n \<Longrightarrow>
     makedirs_error env = Some e \<Longrightarrow> fst (download_body env pcb ccb) = Some e"
  "get_result env = Inr r \<Longrightarrow> status r < 400 \<Longrightarrow> content_length r = Inr n \<Longrightarrow>
     makedirs_error env = None \<Longrightarrow> open_error env = Some e \<Longrightarrow>
     fst (download_body env pcb ccb) = Some e"
  "get_result env = Inr r \<Longrightarrow> status r < 400 \<Longrightarrow> content_length r = Inr n \<Longrightarrow>
     makedirs_error env = None \<Longrightarrow> open_error env = None \<Longrightarrow>
     content r = StreamError e # rest \<Longrightarrow> fst (download_body env pcb ccb) = Some e"
  "get_result env = Inr r \<Longrightarrow> status r < 400 \<Longrightarrow> content_length r = Inr n \<Longrightarrow>
     makedirs_error env = None \<Longrightarrow> open_error env = None \<Longrightarrow>
     content r = Chunk c # rest \<Longrightarrow> write_error env 0 = Some e \<Longrightarrow>
     fst (download_body env pcb ccb) = Some e"
  by (simp_all add: download_body_def download_stream_def initial_run_def)

text \<open>
  Claim C1. For every run of the download that completes without error, on a stream whose
  chunks are not empty (the iteration of aiohttp ends at the first empty read and never
  yields one): the values of \<open>bytesDownloaded\<close> passed to the progress callback are
  strictly increasing; the bytes written to the destination file are the bytes of the
  stream, and the last progress value is their number; the completion callback, when one
  is given, is invoked exactly once, as the last call, with the number of bytes written
  and the total read from the header; and when that total is accurate, that is, equal to
  the number of bytes of the body, \<open>downloaded = totalBytes\<close> in that invocation.
\<close>

theorem C1_successful_download:
  assumes "download_body env pcb ccb = (None, st)"
    and "get_result env = Inr response"
    and "\<forall>c\<in>set (chunks_of (content response)). c \<noteq> []"
  shows "sorted_wrt (<) (progress_values (calls st))
       \<and> written st = concat (chunks_of (content response))
       \<and> (progress_values (calls st) \<noteq> [] \<longrightarrow>
            last (progress_values (calls st)) = int (length (written st)))
       \<and> (\<exists>total_size. content_length response = Inr total_size
            \<and> completions (calls st)
                = (if ccb = None then [] else [(int (length (written st)), total_size)])
            \<and> (ccb \<noteq> None \<longrightarrow> last (calls st) = Completion (int (length (written st))) total_size)
            \<and> (total_size = int (length (concat (chunks_of (content response)))) \<longrightarrow>
                 (\<forall>c\<in>set (completions (calls st)). fst c = snd c)))"
proof (cases rule: download_body_cases[of env pcb ccb])
  case (connect e)
  with assms(1) show ?thesis by simp
next
  case (bad_status r)
  with assms(1) show ?thesis by simp
next
  case (bad_length r e)
  with assms(1) show ?thesis by simp
next
  case (streamed r tsz)
  with assms(2) have r: "r = response" by simp
  let ?cs = "chunks_of (content response)"
  from streamed(4) assms(1) have "download_stream env response tsz pcb ccb = (None, st)"
    by (simp add: r)
  note st = download_stream_success[OF this]
  have pv: "progress_values (calls st) = (if pcb = None then [] else running_totals 0 ?cs)"
    by (subst st) (simp add: reports_def progress_values_append progress_values_map
        split: option.splits)
  have co: "completions (calls st)
              = (if ccb = None then [] else [(int (length (concat ?cs)), tsz)])"
    by (subst st) (simp add: reports_def completions_append completions_map
        split: option.splits)
  have wr: "written st = concat ?cs" by (subst st) simp
  have la: "ccb \<noteq> None \<longrightarrow> last (calls st) = Completion (int (length (concat ?cs))) tsz"
    by (subst st) (simp split: option.splits)
  have 1: "sorted_wrt (<) (progress_values (calls st))"
    using running_totals_increasing[OF assms(3), of 0] by (simp add: pv)
  have 2: "progress_values (calls st) \<noteq> [] \<longrightarrow>
            last (progress_values (calls st)) = int (length (written st))"
    using running_totals_last[of ?cs 0] by (auto simp: pv wr running_totals_Nil split: if_splits)
  have 3: "total_size = int (length (concat ?cs)) \<longrightarrow>
             (\<forall>c\<in>set (completions (calls st)). fst c = snd c)" if "total_size = tsz" for total_size
    using that by (simp add: co)
  from 1 2 3 wr co la streamed(3) r show ?thesis by simp
qed

text \<open>
  The claim on the sample download: five bytes in chunks of three and two, reported as
  3 and 5 of 5, then completed once with 5 of 5.
\<close>

theorem C1_witness:
  "download_body (serving sample_response) (Some quiet) (Some quiet)
     = (None, \<lparr>opened = True, written = ''abcde'', downloaded = 5,
               calls = [Progress 3 5, Progress 5 5, Completion 5 5]\<rparr>)
   \<and> sorted_wrt (<) (progress_values [Progress 3 5, Progress 5 5, Completion 5 5])
   \<and> completions [Progress 3 5, Progress 5 5, Completion 5 5] = [(5, 5)]"
proof -
  have run: "download_body (serving sample_response) (Some quiet) (Some quiet)
     = (None, \<lparr>opened = True, written = ''abcde'', downloaded = 5,
               calls = [Progress 3 5, Progress 5 5, Completion 5 5]\<rparr>)"
    by (simp add: download_body_def download_stream_def serving_def sample_response_def
          content_length_def int_of_str_def strip_def is_space_def digit_val_def quiet_def
          initial_run_def wrote_def reported_def)
  have get: "get_result (serving sample_response) = Inr sample_response"
    by (simp add: serving_def)
  have ne: "\<forall>c\<in>set (chunks_of (content sample_response)). c \<noteq> []"
    by (simp add: sample_response_def)
  from C1_successful_download[OF run get ne] run show ?thesis by simp
qed

text \<open>
  Claim C3. Whenever the body of a download task raises an exception of class Exception
  (a failed connection, an error status, a failure of the directory creation, of opening
  or writing the file, of reading the stream, or any other), the task catches it: the
  coroutine returns, as it does after a successful run, one line with the URL and the
  error is printed, and the coordinator only loses this task's handle. Finishing the task
  leaves every other pending task pending and the membership of every other handle in
  the tracking set unchanged.
\<close>

theorem C3_errors_stay_in_the_task:
  assumes "download_body env pcb ccb = (Some e, st)"
    and "is_Exception e"
  shows "download_file m task u env pcb ccb
           = (\<lparr>ending = Returned, printed = [(u, e)], final = st\<rparr>,
              m\<lparr>download_tasks := download_tasks m - {task}\<rparr>)
       \<and> (\<forall>env' st'. download_body env' pcb ccb = (None, st') \<longrightarrow>
             ending (fst (download_file m task u env' pcb ccb))
               = ending (fst (download_file m task u env pcb ccb)))
       \<and> (\<forall>l t'. t' \<noteq> task \<longrightarrow>
             pending (finish_task l task env) t' = pending l t'
             \<and> (t' \<in> download_tasks (DownloadManager (singleton (finish_task l task env)))
                  \<longleftrightarrow> t' \<in> download_tasks (DownloadManager (singleton l))))"
proof -
  from assms have 1: "download_file m task u env pcb ccb
           = (\<lparr>ending = Returned, printed = [(u, e)], final = st\<rparr>,
              m\<lparr>download_tasks := download_tasks m - {task}\<rparr>)"
    by (simp add: download_file_def Let_def)
  have 2: "ending (fst (download_file m task u env' pcb ccb))
               = ending (fst (download_file m task u env pcb ccb))"
    if "download_body env' pcb ccb = (None, st')" for env' st'
    using that 1 by (simp add: download_file_def Let_def)
  from 1 2 finish_task_others show ?thesis by blast
qed

text \<open>
  The claim on a refused connection, for task 0 beside task 1: the coroutine returns,
  the error is printed, and the set keeps task 1.
\<close>

theorem C3_witness:
  "download_file \<lparr>download_tasks = {0, 1}\<rparr> 0 ''https://example.org/a.vsix'' refusing
       (Some quiet) (Some quiet)
     = (\<lparr>ending = Returned,
         printed = [(''https://example.org/a.vsix'', ClientError ''connection refused'')],
         final = initial_run\<rparr>,
        \<lparr>download_tasks = {1}\<rparr>)"
proof -
  have run: "download_body refusing (Some quiet) (Some quiet)
               = (Some (ClientError ''connection refused''), initial_run)"
    by (simp add: download_body_def refusing_def)
  have exc: "is_Exception (ClientError ''connection refused'')" by simp
  from C3_errors_stay_in_the_task[OF run exc, of "\<lparr>download_tasks = {0, 1}\<rparr>" 0
      "''https://example.org/a.vsix''"]
  show ?thesis by simp
qed

lemma digit_facts:
  assumes "digit_val c \<noteq> None"
  shows "\<not> is_space c" "c \<noteq> CHR ''_''" "c \<noteq> CHR ''-''" "c \<noteq> CHR ''+''"
proof -
  from assms have r: "48 \<le> (of_char c :: nat)" "(of_char c :: nat) \<le> 57"
    by (simp_all add: digit_val_def Let_def split: if_splits)
  from r show "\<not> is_space c" by (simp add: is_space_def Let_def)
  from r show "c \<noteq> CHR ''_''" by auto
  from r show "c \<noteq> CHR ''-''" by auto
  from r show "c \<noteq> CHR ''+''" by auto
qed

lemma int_digits_decimal:
  "s \<noteq> [] \<Longrightarrow> list_all (\<lambda>c. digit_val c \<noteq> None) s \<Longrightarrow>
   int_digits s acc = Some (foldl (\<lambda>n c. 10 * n + the (digit_val c)) acc s)"
proof (induction s acc rule: int_digits.induct)
  case (1 acc)
  then show ?case by simp
next
  case (2 c acc)
  then show ?case by auto
next
  case (3 c c' cs acc)
  from "3.prems" obtain d where d: "digit_val c = Some d" by auto
  from "3.prems" have c': "digit_val c' \<noteq> None" by simp
  from digit_facts(2)[OF c'] have nu: "c' \<noteq> CHR ''_''" .
  from "3.prems" have rest: "list_all (\<lambda>c. digit_val c \<noteq> None) (c' # cs)" by simp
  from "3.IH"(2)[OF d nu _ rest] d nu show ?case by simp
qed

lemma strip_digit_string:
  assumes "digit_string s"
  shows "strip s = s"
proof -
  from assms have ne: "s \<noteq> []" and all: "list_all (\<lambda>c. digit_val c \<noteq> None) s"
    by (simp_all add: digit_string_def)
  from all have ns: "\<forall>c\<in>set s. \<not> is_space c" by (auto simp: list_all_iff digit_facts(1))
  from ne have "hd s \<in> set s" "hd (rev s) \<in> set s" by (simp_all add: hd_rev)
  with ns have "dropWhile is_space s = s" "dropWhile is_space (rev s) = rev s"
    by (simp_all add: dropWhile_eq_self_iff)
  then show ?thesis by (simp add: strip_def)
qed

lemma int_of_digit_string:
  assumes "digit_string s"
  shows "int_of_str s = Inr (decimal s)"
proof -
  from assms have ne: "s \<noteq> []" and all: "list_all (\<lambda>c. digit_val c \<noteq> None) s"
    by (simp_all add: digit_string_def)
  from ne all have "digit_val (hd s) \<noteq> None" by (cases s) simp_all
  from digit_facts(3,4)[OF this] have sign: "hd s \<noteq> CHR ''-''" "hd s \<noteq> CHR ''+''" .
  from int_digits_decimal[OF ne all, of 0] sign ne show ?thesis
    by (simp add: int_of_str_def strip_digit_string[OF assms] Let_def decimal_def)
qed

text \<open>
  Claim C8, as the code has it. When the server's answer has no \<open>Content-Length\<close>
  header the download proceeds with \<open>totalBytes = 0\<close>, and this is no error. When the
  header is a string of decimal digits (of at most 4300 characters, so that no limit of
  the interpreter applies) the download proceeds with the number it denotes. Any other
  value is not treated as unknown: the client refuses the response inside
  \<^verbatim>\<open>session.get\<close>, so the run ends in an error that the task catches and prints, with no
  file created and no callback invoked. The code itself has no step that would turn a
  value \<^verbatim>\<open>int\<close> cannot read into 0.
\<close>

theorem C8_content_length:
  assumes "get_result env = session_get (Inr r)" and "status r < 400"
  shows "(headers r ''Content-Length'' = None \<longrightarrow>
            download_body env pcb ccb = download_stream env r 0 pcb ccb)
       \<and> (\<forall>s. headers r ''Content-Length'' = Some s \<and> digit_string s \<and> length s \<le> 4300 \<longrightarrow>
            download_body env pcb ccb = download_stream env r (decimal s) pcb ccb)
       \<and> (\<forall>s. headers r ''Content-Length'' = Some s \<and> \<not> digit_string s \<longrightarrow>
            (\<exists>e. is_Exception e
               \<and> download_body env pcb ccb = (Some e, initial_run)
               \<and> download_file m task u env pcb ccb
                   = (\<lparr>ending = Returned, printed = [(u, e)], final = initial_run\<rparr>,
                      m\<lparr>download_tasks := download_tasks m - {task}\<rparr>)))"
proof (intro conjI allI impI)
  assume "headers r ''Content-Length'' = None"
  with assms show "download_body env pcb ccb = download_stream env r 0 pcb ccb"
    by (simp add: download_body_def session_get_def content_length_def)
next
  fix s
  assume "headers r ''Content-Length'' = Some s \<and> digit_string s \<and> length s \<le> 4300"
  with assms int_of_digit_string[of s]
  show "download_body env pcb ccb = download_stream env r (decimal s) pcb ccb"
    by (simp add: download_body_def session_get_def content_length_def)
next
  fix s
  assume "headers r ''Content-Length'' = Some s \<and> \<not> digit_string s"
  with assms have "download_body env pcb ccb
                     = (Some (ClientError ''invalid Content-Length''), initial_run)"
    by (simp add: download_body_def session_get_def)
  then show "\<exists>e. is_Exception e
               \<and> download_body env pcb ccb = (Some e, initial_run)
               \<and> download_file m task u env pcb ccb
                   = (\<lparr>ending = Returned, printed = [(u, e)], final = initial_run\<rparr>,
                      m\<lparr>download_tasks := download_tasks m - {task}\<rparr>)"
    by (simp add: download_file_def Let_def)
qed

text \<open>
  The amended claim on the sample download without the header (every invocation gets the
  total 0), with the header \<open>5\<close> (the total is 5) and with the header \<open>abc\<close> (the run
  fails before it starts).
\<close>

theorem C8_witness:
  "download_body (fetching (Inr (sample_response\<lparr>headers := Map.empty\<rparr>))) (Some quiet) (Some quiet)
     = (None, \<lparr>opened = True, written = ''abcde'', downloaded = 5,
               calls = [Progress 3 0, Progress 5 0, Completion 5 0]\<rparr>)
   \<and> download_body (fetching (Inr sample_response)) (Some quiet) (Some quiet)
     = (None, \<lparr>opened = True, written = ''abcde'', downloaded = 5,
               calls = [Progress 3 5, Progress 5 5, Completion 5 5]\<rparr>)
   \<and> (\<exists>e. download_body (fetching (Inr garbled_response)) (Some quiet) (Some quiet)
            = (Some e, initial_run))"
proof -
  let ?r = "sample_response\<lparr>headers := Map.empty\<rparr>"
  have g: "get_result (fetching (Inr r)) = session_get (Inr r)" for r
    by (simp add: fetching_def)
  have st: "status ?r < 400" "status sample_response < 400" "status garbled_response < 400"
    by (simp_all add: sample_response_def garbled_response_def)
  have five: "digit_string ''5''" "length ''5'' \<le> 4300" "decimal ''5'' = 5"
    by (simp_all add: digit_string_def digit_val_def decimal_def)
  have abc: "\<not> digit_string ''abc''"
    by (simp add: digit_string_def digit_val_def)
  have 1: "download_body (fetching (Inr ?r)) (Some quiet) (Some quiet)
             = download_stream (fetching (Inr ?r)) ?r 0 (Some quiet) (Some quiet)"
    using C8_content_length[OF g st(1)] by simp
  have 2: "download_body (fetching (Inr sample_response)) (Some quiet) (Some quiet)
             = download_stream (fetching (Inr sample_response)) sample_response 5
                 (Some quiet) (Some quiet)"
    using C8_content_length[OF g st(2), of "Some quiet" "Some quiet"] five
    by (simp add: sample_response_def)
  have 3: "\<exists>e. download_body (fetching (Inr garbled_response)) (Some quiet) (Some quiet)
            = (Some e, initial_run)"
    using C8_content_length[where pcb = "Some quiet" and ccb = "Some quiet"
        and m = "\<lparr>download_tasks = {}\<rparr>" and task = 0 and u = "[]", OF g st(3)] abc
    by (auto simp: garbled_response_def)
  from 1 2 3 show ?thesis
    by (simp add: download_stream_def fetching_def sample_response_def quiet_def
          initial_run_def wrote_def reported_def)
qed

text \<open>
  The claim as stated fails for the header value \<open>abc\<close>: the download does not
  proceed with \<open>totalBytes = 0\<close>; the task prints the error of the client and ends with
  nothing written and nothing invoked.
\<close>

theorem C8_refused_length_counterexample:
  "headers garbled_response ''Content-Length'' = Some ''abc''
   \<and> download_file \<lparr>download_tasks = {0}\<rparr> 0 ''https://example.org/a.vsix''
        (fetching (Inr garbled_response)) (Some quiet) (Some quiet)
     = (\<lparr>ending = Returned,
         printed = [(''https://example.org/a.vsix'', ClientError ''invalid Content-Length'')],
         final = \<lparr>opened = False, written = [], downloaded = 0, calls = []\<rparr>\<rparr>,
        \<lparr>download_tasks = {}\<rparr>)"
  by (simp add: download_file_def Let_def download_body_def fetching_def session_get_def
        sample_response_def garbled_response_def digit_string_def digit_val_def initial_run_def)












section \<open>Properties of the tracking set\<close>

lemma tracked_start:
  "tracked (start_download l co) = insert (created l) (tracked l)"
  by (simp add: tracked_def start_download_def Let_def DownloadManager_def)

lemma pending_start:
  "dom (pending (start_download l co)) = insert (created l) (dom (pending l))"
  by (simp add: start_download_def Let_def)

lemma tracked_finish:
  "tracked (finish_task l task env)
     = (if pending l task = None then tracked l else tracked l - {task})"
proof (cases "pending l task")
  case None
  then show ?thesis by (simp add: finish_task_def)
next
  case (Some co)
  obtain r m where dl: "download_file (DownloadManager (singleton l)) task (url co) env
                          (progress_callback co) (completion_callback co) = (r, m)"
    by (cases "download_file (DownloadManager (singleton l)) task (url co) env
                          (progress_callback co) (completion_callback co)")
  from download_file_discards[of "DownloadManager (singleton l)" task "url co" env
      "progress_callback co" "completion_callback co"] dl
  have "download_tasks m = tracked l - {task}" by (simp add: tracked_def)
  with Some dl show ?thesis by (simp add: finish_task_def tracked_def DownloadManager_def)
qed

lemma pending_finish:
  "dom (pending (finish_task l task env))
     = (if pending l task = None then dom (pending l) else dom (pending l) - {task})"
proof (cases "pending l task")
  case None
  then show ?thesis by (simp add: finish_task_def)
next
  case (Some co)
  obtain r m where dl: "download_file (DownloadManager (singleton l)) task (url co) env
                          (progress_callback co) (completion_callback co) = (r, m)"
    by (cases "download_file (DownloadManager (singleton l)) task (url co) env
                          (progress_callback co) (completion_callback co)")
  with Some show ?thesis by (simp add: finish_task_def)
qed

lemma tracked_cancel: "tracked (cancel_unstarted l task) = tracked l"
  by (simp add: tracked_def cancel_unstarted_def)

lemma pending_cancel:
  "dom (pending (cancel_unstarted l task)) = dom (pending l) - {task}"
  by (simp add: cancel_unstarted_def)

lemma loop_step_tracked:
  "runs_its_body ev \<Longrightarrow> tracked l = dom (pending l) \<Longrightarrow>
   tracked (loop_step l ev) = dom (pending (loop_step l ev))"
  by (cases ev) (simp_all add: tracked_start pending_start tracked_finish pending_finish)

lemma foldl_tracked:
  "list_all runs_its_body evs \<Longrightarrow> tracked l = dom (pending l) \<Longrightarrow>
   tracked (foldl loop_step l evs) = dom (pending (foldl loop_step l evs))"
  by (induction evs arbitrary: l) (simp_all add: loop_step_tracked)

lemma run_loop_tracked:
  "list_all runs_its_body evs \<Longrightarrow> tracked (run_loop evs) = dom (pending (run_loop evs))"
  unfolding run_loop_def
  by (rule foldl_tracked) (simp_all add: tracked_def initial_loop_def DownloadManager_def)

lemma loop_step_pending_tracked:
  "dom (pending l) \<subseteq> tracked l \<Longrightarrow> dom (pending (loop_step l ev)) \<subseteq> tracked (loop_step l ev)"
  by (cases ev)
     (auto simp: tracked_start pending_start tracked_finish pending_finish tracked_cancel
        pending_cancel split: if_splits)

text \<open>
  As long as every task runs its body: before any download is started the set is empty
  and \<^verbatim>\<open>active_downloads\<close> is 0; starting a download registers the new task's handle;
  however the coroutine ends (it returns, it catches an error, or a cancellation at a
  suspension point leaves it), its handle is no longer in the set. So after any sequence
  of starts and finished tasks the set holds exactly the handles of the tasks that have
  not finished, and \<^verbatim>\<open>active_downloads\<close> is 0 again once all of them have.
\<close>

theorem tracking_set_of_run_bodies:
  "active_downloads (DownloadManager (singleton initial_loop)) = 0
   \<and> (list_all runs_its_body evs \<longrightarrow>
        tracked (run_loop evs) = dom (pending (run_loop evs))
        \<and> (pending (run_loop evs) = Map.empty \<longrightarrow>
             active_downloads (DownloadManager (singleton (run_loop evs))) = 0))
   \<and> created l \<in> tracked (start_download l co)
   \<and> pending (start_download l co) (created l) = Some co
   \<and> task \<notin> download_tasks (snd (download_file m task u env pcb ccb))
   \<and> (pending l task \<noteq> None \<longrightarrow>
        task \<notin> tracked (finish_task l task env) \<and> pending (finish_task l task env) task = None)"
proof -
  have 1: "active_downloads (DownloadManager (singleton initial_loop)) = 0"
    by (simp add: active_downloads_def initial_loop_def DownloadManager_def)
  have 3: "list_all runs_its_body evs \<longrightarrow>
        tracked (run_loop evs) = dom (pending (run_loop evs))
        \<and> (pending (run_loop evs) = Map.empty \<longrightarrow>
             active_downloads (DownloadManager (singleton (run_loop evs))) = 0)"
    using run_loop_tracked[of evs] by (auto simp: active_downloads_def tracked_def)
  have 5: "pending (start_download l co) (created l) = Some co"
    by (simp add: start_download_def Let_def)
  have 7: "pending l task \<noteq> None \<longrightarrow>
        task \<notin> tracked (finish_task l task env) \<and> pending (finish_task l task env) task = None"
    using pending_finish[of l task env] by (auto simp: tracked_finish)
  from 1 3 5 7 tracked_start download_file_discards show ?thesis
    by simp
qed

text \<open>
  Two downloads started together, one that fails to connect and one whose completion
  callback raises: one tracked task after the first finishes, none after both.
\<close>

theorem tracking_set_of_run_bodies_witness:
  "pending (run_loop [Start \<lparr>url = ''a'', progress_callback = Some quiet, completion_callback = Some quiet\<rparr>,
                      Start \<lparr>url = ''b'', progress_callback = None, completion_callback = Some raising\<rparr>,
                      Finish 1 (serving sample_response),
                      Finish 0 refusing]) = Map.empty
   \<and> active_downloads (DownloadManager (singleton (run_loop
                     [Start \<lparr>url = ''a'', progress_callback = Some quiet, completion_callback = Some quiet\<rparr>,
                      Start \<lparr>url = ''b'', progress_callback = None, completion_callback = Some raising\<rparr>,
                      Finish 1 (serving sample_response),
                      Finish 0 refusing]))) = 0
   \<and> active_downloads (DownloadManager (singleton (run_loop
                     [Start \<lparr>url = ''a'', progress_callback = Some quiet, completion_callback = Some quiet\<rparr>,
                      Start \<lparr>url = ''b'', progress_callback = None, completion_callback = Some raising\<rparr>,
                      Finish 1 (serving sample_response)]))) = 1"
proof -
  let ?a = "\<lparr>url = ''a'', progress_callback = Some quiet, completion_callback = Some quiet\<rparr>"
  let ?b = "\<lparr>url = ''b'', progress_callback = None, completion_callback = Some raising\<rparr>"
  have p: "pending (run_loop [Start ?a, Start ?b, Finish 1 (serving sample_response),
                      Finish 0 refusing]) = Map.empty"
    by (simp add: run_loop_def initial_loop_def start_download_def finish_task_def Let_def
          split_beta)
  have q: "dom (pending (run_loop [Start ?a, Start ?b, Finish 1 (serving sample_response)])) = {0}"
    by (simp add: run_loop_def initial_loop_def start_download_def finish_task_def Let_def
          split_beta)
  from tracking_set_of_run_bodies[of "[Start ?a, Start ?b, Finish 1 (serving sample_response),
                      Finish 0 refusing]"] p
  have 1: "active_downloads (DownloadManager (singleton (run_loop
      [Start ?a, Start ?b, Finish 1 (serving sample_response), Finish 0 refusing]))) = 0"
    by simp
  from tracking_set_of_run_bodies[of "[Start ?a, Start ?b, Finish 1 (serving sample_response)]"] q
  have 2: "active_downloads (DownloadManager (singleton (run_loop
      [Start ?a, Start ?b, Finish 1 (serving sample_response)]))) = 1"
    by (simp add: active_downloads_def tracked_def)
  from p 1 2 show ?thesis by simp
qed


section \<open>Properties of the search screen\<close>

lemma find_append_split:
  "find P (xs @ ys) = (case find P xs of None \<Rightarrow> find P ys | Some x \<Rightarrow> Some x)"
  by (induction xs) simp_all

lemma populate_step:
  "populate_extensions (x # rest) s =
     populate_extensions rest
       \<lparr>extensions = (extensions s)(name x \<mapsto> x),
        container = (if name x \<in> set (map fst (container s)) then container s
                     else container s @ [(name x, x)])\<rparr>"
  by (cases s) (simp add: mount_def Let_def)

lemma populate_last_wins:
  "extensions (populate_extensions xs s) n
     = (case find (\<lambda>x. name x = n) (rev xs) of None \<Rightarrow> extensions s n | Some x \<Rightarrow> Some x)"
proof (induction xs arbitrary: s)
  case Nil
  then show ?case by simp
next
  case (Cons x xs)
  show ?case
    by (simp only: populate_step Cons.IH)
       (simp add: find_append_split split: option.splits)
qed

lemma populate_first_shown:
  "map_of (container (populate_extensions xs s)) n
     = (case map_of (container s) n of
          None \<Rightarrow> find (\<lambda>x. name x = n) xs
        | Some y \<Rightarrow> Some y)"
proof (induction xs arbitrary: s)
  case Nil
  then show ?case by (simp split: option.splits)
next
  case (Cons x xs)
  have in_dom: "name x \<in> set (map fst (container s)) \<longleftrightarrow> map_of (container s) (name x) \<noteq> None"
    by (simp add: map_of_eq_None_iff)
  show ?case
  proof (cases "name x \<in> set (map fst (container s))")
    case True
    then have "map_of (container s) (name x) \<noteq> None" using in_dom by simp
    with True show ?thesis
      by (simp only: populate_step Cons.IH) (auto split: option.splits)
  next
    case False
    then have "map_of (container s) (name x) = None" using in_dom by simp
    with False show ?thesis
      by (simp only: populate_step Cons.IH) (auto simp: map_add_def split: option.splits)
  qed
qed

text \<open>
  Claim C9 at two results with the same extension name. The widget of the second result
  is dropped, so the result displayed under the name is the first one; but the dict entry
  was overwritten before the mount was tried, so the download button of the displayed
  widget dismisses the screen with the second record, not with the first.
\<close>

theorem C9_duplicate_names:
  "container (populate_extensions [first_python, second_python] new_screen) = [(''python'', first_python)]
   \<and> on_button_pressed (populate_extensions [first_python, second_python] new_screen)
         (download_button_id first_python) = Some (Inr second_python)
   \<and> first_python \<noteq> second_python"
  by (simp add: new_screen_def mount_def first_python_def second_python_def
        on_button_pressed_def download_button_id_def replace_with_empty_def Let_def)

end
